theory Spec2Isabelle
  imports Complex_Main
begin

section \<open>JavaScript numbers and the clamped byte array\<close>

text \<open>
  A JavaScript \<open>number\<close> is modelled as a real or \<open>NaN\<close>.  Every number the program computes
  from a byte array and the palette is a multiple of \<open>1/16\<close> of small magnitude (bytes, palette
  channels, their differences, and products with \<open>7/16\<close>, \<open>3/16\<close>, \<open>5/16\<close>, \<open>1/16\<close>), which
  binary64 represents exactly, so the arithmetic below is the arithmetic of the program.  The one
  operation that rounds, \<open>Math.sqrt\<close> in the matcher, is modelled here by the real square root.
  The matcher is modelled a second time below, in binary64 arithmetic; on channels that are
  bytes or \<open>NaN\<close>, the only numbers the scan reads from its array, the two models return the
  same palette entry (lemmas \<open>closestIn64_bytes\<close> and \<open>closestIn64_NaN\<close>).

  Reading a typed array outside its bounds gives \<open>undefined\<close>; the program only ever uses such a
  value as an operand of \<open>-\<close> or \<open>+\<close>, where it becomes \<open>NaN\<close>, so the read itself returns \<open>NaN\<close>.
\<close>

datatype number = NaN | Num real

fun num_sub :: "number \<Rightarrow> number \<Rightarrow> number" where
  "num_sub (Num a) (Num b) = Num (a - b)"
| "num_sub _ _ = NaN"

fun num_add :: "number \<Rightarrow> number \<Rightarrow> number" where
  "num_add (Num a) (Num b) = Num (a + b)"
| "num_add _ _ = NaN"

fun num_mul :: "number \<Rightarrow> number \<Rightarrow> number" where
  "num_mul (Num a) (Num b) = Num (a * b)"
| "num_mul _ _ = NaN"

text \<open>\<open>v ** 2\<close>\<close>

fun num_pow2 :: "number \<Rightarrow> number" where
  "num_pow2 (Num a) = Num (a\<^sup>2)"
| "num_pow2 NaN = NaN"

fun Math_sqrt :: "number \<Rightarrow> number" where
  "Math_sqrt (Num a) = (if a < 0 then NaN else Num (sqrt a))"
| "Math_sqrt NaN = NaN"

text \<open>
  The variable \<open>minDistance\<close> holds \<open>Infinity\<close> or a number assigned from \<open>distance\<close>.
  \<open>num_less d m\<close> is the comparison \<open>d < m\<close>: false as soon as one side is \<open>NaN\<close>.
\<close>

datatype bound = Infinity | Finite number

fun num_less :: "number \<Rightarrow> bound \<Rightarrow> bool" where
  "num_less NaN m = False"
| "num_less (Num d) Infinity = True"
| "num_less (Num d) (Finite NaN) = False"
| "num_less (Num d) (Finite (Num m)) = (d < m)"

text \<open>
  The conversion a \<open>Uint8ClampedArray\<close> applies to every value stored into it
  (ECMAScript \<open>ToUint8Clamp\<close>): \<open>NaN\<close> becomes 0, the value is clamped to \<open>[0, 255]\<close> and rounded
  to the nearest integer, a tie going to the even neighbour.
\<close>

fun ToUint8Clamp :: "number \<Rightarrow> nat" where
  "ToUint8Clamp NaN = 0"
| "ToUint8Clamp (Num v) =
     (let clamped = min (max v 0) 255;
          f = \<lfloor>clamped\<rfloor>
      in if clamped < real_of_int f + 1 / 2 then nat f
         else if clamped > real_of_int f + 1 / 2 then nat (f + 1)
         else if even f then nat f
         else nat (f + 1))"

type_synonym Uint8ClampedArray = "nat list"

text \<open>\<open>a[i]\<close> as an operand of arithmetic.\<close>

definition load :: "Uint8ClampedArray \<Rightarrow> nat \<Rightarrow> number" where
  "load a i = (if i < length a then Num (real (a ! i)) else NaN)"

text \<open>\<open>a[i] = v\<close>: a store outside the bounds of a typed array is ignored.\<close>

definition store :: "Uint8ClampedArray \<Rightarrow> nat \<Rightarrow> number \<Rightarrow> Uint8ClampedArray" where
  "store a i v = (if i < length a then a[i := ToUint8Clamp v] else a)"

text \<open>\<open>a[i] += v\<close>\<close>

definition addAssign :: "Uint8ClampedArray \<Rightarrow> nat \<Rightarrow> number \<Rightarrow> Uint8ClampedArray" where
  "addAssign a i v = store a i (num_add (load a i) v)"

section \<open>The palette matcher\<close>

type_synonym rgb = "real \<times> real \<times> real"

definition PALETTE :: "rgb list" where
  "PALETTE =
     [(0, 0, 0), (255, 255, 255), (255, 0, 0), (0, 255, 0),
      (0, 0, 255), (255, 255, 0), (0, 255, 255), (255, 0, 255)]"

text \<open>
  The \<open>for ... of\<close> loop of \<open>findClosestPaletteColor\<close> over the entries that remain, with the
  loop's two variables as state.
\<close>

fun closestLoop :: "number \<Rightarrow> number \<Rightarrow> number \<Rightarrow> rgb list \<Rightarrow> bound \<times> rgb \<Rightarrow> bound \<times> rgb" where
  "closestLoop r g b [] (minDistance, closestColor) = (minDistance, closestColor)"
| "closestLoop r g b ((pr, pg, pb) # rest) (minDistance, closestColor) =
     (let distance =
            Math_sqrt (num_add (num_add (num_pow2 (num_sub r (Num pr))) (num_pow2 (num_sub g (Num pg))))
                           (num_pow2 (num_sub b (Num pb))))
      in if num_less distance minDistance
         then closestLoop r g b rest (Finite distance, (pr, pg, pb))
         else closestLoop r g b rest (minDistance, closestColor))"

text \<open>The matcher over a given palette, and the program's matcher over \<open>PALETTE\<close>.\<close>

definition closestIn :: "rgb list \<Rightarrow> number \<Rightarrow> number \<Rightarrow> number \<Rightarrow> rgb" where
  "closestIn palette r g b = snd (closestLoop r g b palette (Infinity, (0, 0, 0)))"

definition findClosestPaletteColor :: "number \<Rightarrow> number \<Rightarrow> number \<Rightarrow> rgb" where
  "findClosestPaletteColor r g b = closestIn PALETTE r g b"

text \<open>
  The variant of the matcher that the specification describes as an optimisation; it is not
  part of the program.  It is the same loop, comparing squared distances: the sum of the three
  squares without the square root.
\<close>

fun closestLoopSquared :: "number \<Rightarrow> number \<Rightarrow> number \<Rightarrow> rgb list \<Rightarrow> bound \<times> rgb \<Rightarrow> bound \<times> rgb" where
  "closestLoopSquared r g b [] (minDistance, closestColor) = (minDistance, closestColor)"
| "closestLoopSquared r g b ((pr, pg, pb) # rest) (minDistance, closestColor) =
     (let distance =
            num_add (num_add (num_pow2 (num_sub r (Num pr))) (num_pow2 (num_sub g (Num pg))))
                (num_pow2 (num_sub b (Num pb)))
      in if num_less distance minDistance
         then closestLoopSquared r g b rest (Finite distance, (pr, pg, pb))
         else closestLoopSquared r g b rest (minDistance, closestColor))"

definition closestInSquared :: "rgb list \<Rightarrow> number \<Rightarrow> number \<Rightarrow> number \<Rightarrow> rgb" where
  "closestInSquared palette r g b = snd (closestLoopSquared r g b palette (Infinity, (0, 0, 0)))"

section \<open>The palette matcher in binary64 arithmetic\<close>

text \<open>
  The numbers of the program are binary64 values.  A finite one is modelled by the real it
  denotes, next to the two infinities and \<open>NaN\<close>; the sign of zero is not modelled, as no
  operation of the matcher tells the two zeros apart.  \<open>nearest x\<close> is the binary64 value
  nearest to the real \<open>x\<close> when the exponent range has no upper end: with \<open>e\<close> the exponent of
  \<open>x\<close>, and \<open>-1022\<close> for every \<open>x\<close> below the normal range, \<open>x\<close> is rounded to a multiple of
  \<open>2 ^ (e - 52)\<close>, a tie going to the even multiple.  \<open>toDouble\<close> is the rounding of the result
  of an arithmetic operation: an infinity as soon as \<open>nearest x\<close> reaches \<open>2 ^ 1024\<close>.
\<close>

datatype double = Dbl real | PosInf | NegInf | DNaN

definition roundHalfEven :: "real \<Rightarrow> int" where
  "roundHalfEven y =
     (let f = \<lfloor>y\<rfloor>
      in if y < real_of_int f + 1 / 2 then f
         else if y > real_of_int f + 1 / 2 then f + 1
         else if even f then f
         else f + 1)"

definition exponent :: "real \<Rightarrow> int" where
  "exponent x = max \<lfloor>log 2 \<bar>x\<bar>\<rfloor> (- 1022)"

definition nearest :: "real \<Rightarrow> real" where
  "nearest x =
     (if x = 0 then 0
      else real_of_int (roundHalfEven (x / 2 powi (exponent x - 52))) * 2 powi (exponent x - 52))"

definition toDouble :: "real \<Rightarrow> double" where
  "toDouble x =
     (if \<bar>nearest x\<bar> \<ge> 2 ^ 1024 then (if 0 < x then PosInf else NegInf) else Dbl (nearest x))"

text \<open>
  \<open>a - b\<close> and \<open>a + b\<close> are the correctly rounded difference and sum.  \<open>v ** 2\<close> is taken to be
  the correctly rounded square and \<open>Math.sqrt\<close> the correctly rounded square root.  \<open>dless\<close> is
  the comparison \<open>d < m\<close>.
\<close>

fun dsub :: "double \<Rightarrow> double \<Rightarrow> double" where
  "dsub (Dbl a) (Dbl b) = toDouble (a - b)"
| "dsub DNaN _ = DNaN"
| "dsub _ DNaN = DNaN"
| "dsub PosInf PosInf = DNaN"
| "dsub NegInf NegInf = DNaN"
| "dsub PosInf _ = PosInf"
| "dsub NegInf _ = NegInf"
| "dsub (Dbl a) PosInf = NegInf"
| "dsub (Dbl a) NegInf = PosInf"

fun dadd :: "double \<Rightarrow> double \<Rightarrow> double" where
  "dadd (Dbl a) (Dbl b) = toDouble (a + b)"
| "dadd DNaN _ = DNaN"
| "dadd _ DNaN = DNaN"
| "dadd PosInf NegInf = DNaN"
| "dadd NegInf PosInf = DNaN"
| "dadd PosInf _ = PosInf"
| "dadd NegInf _ = NegInf"
| "dadd (Dbl a) PosInf = PosInf"
| "dadd (Dbl a) NegInf = NegInf"

fun dpow2 :: "double \<Rightarrow> double" where
  "dpow2 (Dbl a) = toDouble (a\<^sup>2)"
| "dpow2 PosInf = PosInf"
| "dpow2 NegInf = PosInf"
| "dpow2 DNaN = DNaN"

fun dsqrt :: "double \<Rightarrow> double" where
  "dsqrt (Dbl a) = (if a < 0 then DNaN else Dbl (nearest (sqrt a)))"
| "dsqrt PosInf = PosInf"
| "dsqrt NegInf = DNaN"
| "dsqrt DNaN = DNaN"

fun dless :: "double \<Rightarrow> double \<Rightarrow> bool" where
  "dless DNaN _ = False"
| "dless _ DNaN = False"
| "dless (Dbl a) (Dbl b) = (a < b)"
| "dless (Dbl a) PosInf = True"
| "dless NegInf (Dbl b) = True"
| "dless NegInf PosInf = True"
| "dless _ _ = False"

text \<open>
  The loop of \<open>findClosestPaletteColor\<close> once more, on these numbers; \<open>minDistance\<close> starts as
  \<open>Infinity\<close> and \<open>closestColor\<close> as \<open>[0, 0, 0]\<close>.  The loop of the section before is this loop
  with every operation exact.
\<close>

fun closestLoop64 :: "double \<Rightarrow> double \<Rightarrow> double \<Rightarrow> rgb list \<Rightarrow> double \<times> rgb \<Rightarrow> double \<times> rgb" where
  "closestLoop64 r g b [] (minDistance, closestColor) = (minDistance, closestColor)"
| "closestLoop64 r g b ((pr, pg, pb) # rest) (minDistance, closestColor) =
     (let distance =
            dsqrt (dadd (dadd (dpow2 (dsub r (Dbl pr))) (dpow2 (dsub g (Dbl pg))))
                        (dpow2 (dsub b (Dbl pb))))
      in if dless distance minDistance
         then closestLoop64 r g b rest (distance, (pr, pg, pb))
         else closestLoop64 r g b rest (minDistance, closestColor))"

definition closestIn64 :: "rgb list \<Rightarrow> double \<Rightarrow> double \<Rightarrow> double \<Rightarrow> rgb" where
  "closestIn64 palette r g b = snd (closestLoop64 r g b palette (PosInf, (0, 0, 0)))"

definition findClosestPaletteColor64 :: "double \<Rightarrow> double \<Rightarrow> double \<Rightarrow> rgb" where
  "findClosestPaletteColor64 r g b = closestIn64 PALETTE r g b"

text \<open>The variant that compares squared distances, on the same numbers.\<close>

fun closestLoopSquared64 :: "double \<Rightarrow> double \<Rightarrow> double \<Rightarrow> rgb list \<Rightarrow> double \<times> rgb \<Rightarrow> double \<times> rgb" where
  "closestLoopSquared64 r g b [] (minDistance, closestColor) = (minDistance, closestColor)"
| "closestLoopSquared64 r g b ((pr, pg, pb) # rest) (minDistance, closestColor) =
     (let distance =
            dadd (dadd (dpow2 (dsub r (Dbl pr))) (dpow2 (dsub g (Dbl pg))))
                 (dpow2 (dsub b (Dbl pb)))
      in if dless distance minDistance
         then closestLoopSquared64 r g b rest (distance, (pr, pg, pb))
         else closestLoopSquared64 r g b rest (minDistance, closestColor))"

definition closestInSquared64 :: "rgb list \<Rightarrow> double \<Rightarrow> double \<Rightarrow> double \<Rightarrow> rgb" where
  "closestInSquared64 palette r g b = snd (closestLoopSquared64 r g b palette (PosInf, (0, 0, 0)))"

section \<open>The dithering engine\<close>

definition getPixelIndex :: "nat \<Rightarrow> nat \<Rightarrow> nat \<Rightarrow> nat" where
  "getPixelIndex width x y = (y * width + x) * 4"

text \<open>
  The closure \<open>distributeError\<close> of the pixel at \<open>(x, y)\<close> with quantization error \<open>error\<close>,
  applied to the working array \<open>result\<close>.
\<close>

definition distributeError ::
  "nat \<Rightarrow> nat \<Rightarrow> nat \<Rightarrow> nat \<Rightarrow> number \<times> number \<times> number \<Rightarrow> int \<Rightarrow> int \<Rightarrow> real
     \<Rightarrow> Uint8ClampedArray \<Rightarrow> Uint8ClampedArray" where
  "distributeError width height x y error dx dy factor result =
     (let nx = int x + dx;
          ny = int y + dy
      in if nx \<ge> 0 \<and> nx < int width \<and> ny \<ge> 0 \<and> ny < int height
         then
           (let nIndex = getPixelIndex width (nat nx) (nat ny);
                result = addAssign result nIndex (num_mul (fst error) (Num factor));
                result = addAssign result (nIndex + 1) (num_mul (fst (snd error)) (Num factor));
                result = addAssign result (nIndex + 2) (num_mul (snd (snd error)) (Num factor))
            in result)
         else result)"

text \<open>The body of the inner loop: the pixel at \<open>(x, y)\<close> is quantized and its error diffused.\<close>

definition loopBody ::
  "rgb list \<Rightarrow> nat \<Rightarrow> nat \<Rightarrow> nat \<Rightarrow> nat \<Rightarrow> Uint8ClampedArray \<Rightarrow> Uint8ClampedArray" where
  "loopBody palette width height x y result =
     (let index = getPixelIndex width x y;
          oldColor = (load result index, load result (index + 1), load result (index + 2));
          newColor = closestIn palette (fst oldColor) (fst (snd oldColor)) (snd (snd oldColor));
          result = store result index (Num (fst newColor));
          result = store result (index + 1) (Num (fst (snd newColor)));
          result = store result (index + 2) (Num (snd (snd newColor)));
          error = (num_sub (fst oldColor) (Num (fst newColor)),
                   num_sub (fst (snd oldColor)) (Num (fst (snd newColor))),
                   num_sub (snd (snd oldColor)) (Num (snd (snd newColor))));
          result = distributeError width height x y error 1 0 (7 / 16) result;
          result = distributeError width height x y error (- 1) 1 (3 / 16) result;
          result = distributeError width height x y error 0 1 (5 / 16) result;
          result = distributeError width height x y error 1 1 (1 / 16) result
      in result)"

text \<open>\<open>for (let x = 0; x < width; x++)\<close> and \<open>for (let y = 0; y < height; y++)\<close>\<close>

definition innerLoop ::
  "rgb list \<Rightarrow> nat \<Rightarrow> nat \<Rightarrow> nat \<Rightarrow> Uint8ClampedArray \<Rightarrow> Uint8ClampedArray" where
  "innerLoop palette width height y result =
     fold (\<lambda>x. loopBody palette width height x y) [0..<width] result"

definition outerLoop ::
  "rgb list \<Rightarrow> nat \<Rightarrow> nat \<Rightarrow> Uint8ClampedArray \<Rightarrow> Uint8ClampedArray" where
  "outerLoop palette width height result =
     fold (\<lambda>y. innerLoop palette width height y) [0..<height] result"

text \<open>
  Arrays are objects: an \<open>ImageData\<close> holds a reference to its \<open>data\<close> array.  The heap is the
  list of the arrays allocated so far, a reference is a position in it.
  \<open>new Uint8ClampedArray(data)\<close> with a typed array as argument allocates a new array holding a
  copy of the argument's elements.  The loop nest reads and writes the array \<open>result\<close> only, so
  it is run on the contents of that array.  \<open>new ImageData(result, width, height)\<close> refers to
  \<open>result\<close> itself; the class belongs to the platform, its constructor accepts an array of
  \<open>4 * width * height\<close> bytes with positive \<open>width\<close> and \<open>height\<close>, as \<open>result\<close> is whenever the
  input is an image, and the call is modelled as the construction of the record.

  \<open>ditherWith\<close> is the function with the palette as a parameter; the program's
  \<open>floydSteinbergDithering\<close> reads the constant \<open>PALETTE\<close>.
\<close>

type_synonym heap = "Uint8ClampedArray list"

record ImageData =
  width :: nat
  height :: nat
  data :: nat

definition new_Uint8ClampedArray :: "heap \<Rightarrow> nat \<Rightarrow> nat \<times> heap" where
  "new_Uint8ClampedArray h src = (length h, h @ [h ! src])"

definition ditherWith :: "rgb list \<Rightarrow> ImageData \<Rightarrow> heap \<Rightarrow> ImageData \<times> heap" where
  "ditherWith palette imageData h =
     (let (result, h) = new_Uint8ClampedArray h (data imageData);
          h = h[result := outerLoop palette (width imageData) (height imageData) (h ! result)]
      in (\<lparr>width = width imageData, height = height imageData, data = result\<rparr>, h))"

definition floydSteinbergDithering :: "ImageData \<Rightarrow> heap \<Rightarrow> ImageData \<times> heap" where
  "floydSteinbergDithering imageData h = ditherWith PALETTE imageData h"

section \<open>Auxiliary definitions\<close>

text \<open>
  The local variables of the loop body as functions of the working array at the start of the
  iteration for \<open>(x, y)\<close>: \<open>oldColor\<close>, \<open>newColor\<close> and \<open>error\<close>, and the array after
  the three stores of \<open>newColor\<close>.
\<close>

definition oldColorAt :: "nat \<Rightarrow> nat \<Rightarrow> nat \<Rightarrow> Uint8ClampedArray \<Rightarrow> number \<times> number \<times> number" where
  "oldColorAt w x y result =
     (load result (getPixelIndex w x y), load result (getPixelIndex w x y + 1),
      load result (getPixelIndex w x y + 2))"

definition newColorAt :: "rgb list \<Rightarrow> nat \<Rightarrow> nat \<Rightarrow> nat \<Rightarrow> Uint8ClampedArray \<Rightarrow> rgb" where
  "newColorAt pal w x y result =
     (case oldColorAt w x y result of (r, g, b) \<Rightarrow> closestIn pal r g b)"

definition errorAt :: "rgb list \<Rightarrow> nat \<Rightarrow> nat \<Rightarrow> nat \<Rightarrow> Uint8ClampedArray \<Rightarrow> number \<times> number \<times> number" where
  "errorAt pal w x y result =
     (case (oldColorAt w x y result, newColorAt pal w x y result) of
        ((r, g, b), (nr, ng, nb)) \<Rightarrow> (num_sub r (Num nr), num_sub g (Num ng), num_sub b (Num nb)))"

definition quantized :: "rgb list \<Rightarrow> nat \<Rightarrow> nat \<Rightarrow> nat \<Rightarrow> Uint8ClampedArray \<Rightarrow> Uint8ClampedArray" where
  "quantized pal w x y result =
     (case newColorAt pal w x y result of (nr, ng, nb) \<Rightarrow>
        store (store (store result (getPixelIndex w x y) (Num nr))
          (getPixelIndex w x y + 1) (Num ng)) (getPixelIndex w x y + 2) (Num nb))"

text \<open>\<open>e[c]\<close> for a three-element array \<open>e\<close> and \<open>c\<close> in \<open>0, 1, 2\<close>.\<close>

definition chan :: "number \<times> number \<times> number \<Rightarrow> nat \<Rightarrow> number" where
  "chan e c = (if c = 0 then fst e else if c = 1 then fst (snd e) else snd (snd e))"

definition chanR :: "rgb \<Rightarrow> nat \<Rightarrow> real" where
  "chanR e c = (if c = 0 then fst e else if c = 1 then fst (snd e) else snd (snd e))"

text \<open>The update a diffusion step makes to a stored byte.\<close>

definition diffused :: "nat \<Rightarrow> number \<Rightarrow> real \<Rightarrow> nat" where
  "diffused v e f = ToUint8Clamp (num_add (Num (real v)) (num_mul e (Num f)))"

text \<open>
  The squared distance the matcher computes for a palette entry, and the Euclidean distance of
  a colour with real channels from an entry.
\<close>

definition squaredDistance :: "number \<Rightarrow> number \<Rightarrow> number \<Rightarrow> rgb \<Rightarrow> number" where
  "squaredDistance r g b p =
     num_add (num_add (num_pow2 (num_sub r (Num (fst p)))) (num_pow2 (num_sub g (Num (fst (snd p))))))
       (num_pow2 (num_sub b (Num (snd (snd p)))))"

definition euclid :: "real \<Rightarrow> real \<Rightarrow> real \<Rightarrow> rgb \<Rightarrow> real" where
  "euclid r g b p = sqrt ((r - fst p)\<^sup>2 + (g - fst (snd p))\<^sup>2 + (b - snd (snd p))\<^sup>2)"

text \<open>
  The working array after the first \<open>k\<close> iterations of the loop nest, in scan order: iteration
  number \<open>p\<close> handles the pixel at \<open>(p mod width, p div width)\<close>.  An array whose elements
  are all bytes, and the stored colour of a pixel.
\<close>

definition pixelsDone :: "rgb list \<Rightarrow> nat \<Rightarrow> nat \<Rightarrow> nat \<Rightarrow> Uint8ClampedArray \<Rightarrow> Uint8ClampedArray" where
  "pixelsDone pal w h k result = fold (\<lambda>p. loopBody pal w h (p mod w) (p div w)) [0..<k] result"

definition bytes :: "Uint8ClampedArray \<Rightarrow> bool" where
  "bytes a \<longleftrightarrow> (\<forall>v\<in>set a. v \<le> 255)"

definition pixelAt :: "Uint8ClampedArray \<Rightarrow> nat \<Rightarrow> nat \<Rightarrow> nat \<Rightarrow> rgb" where
  "pixelAt a w x y =
     (real (a ! getPixelIndex w x y), real (a ! (getPixelIndex w x y + 1)),
      real (a ! (getPixelIndex w x y + 2)))"

text \<open>An image of two pixels in one row, and a heap holding its array.\<close>

definition image2x1 :: ImageData where
  "image2x1 = \<lparr>width = 2, height = 1, data = 0\<rparr>"

definition heap2x1 :: heap where
  "heap2x1 = [[128, 128, 128, 7, 128, 128, 128, 9]]"

text \<open>
  The diffusion kernel as the specification lists it, a table of weights by offset (0 for
  every other offset), and the sum of the weights of the neighbours of \<open>(x, y)\<close> that lie
  inside the image.
\<close>

definition weight :: "int \<Rightarrow> int \<Rightarrow> real" where
  "weight dx dy =
     (if dx = 1 \<and> dy = 0 then 7 / 16
      else if dx = - 1 \<and> dy = 1 then 3 / 16
      else if dx = 0 \<and> dy = 1 then 5 / 16
      else if dx = 1 \<and> dy = 1 then 1 / 16
      else 0)"

definition totalWeight :: "nat \<Rightarrow> nat \<Rightarrow> nat \<Rightarrow> nat \<Rightarrow> real" where
  "totalWeight w h x y =
     (\<Sum>(dx, dy) \<leftarrow> [(1, 0), (- 1, 1), (0, 1), (1, 1)].
        if 0 \<le> int x + dx \<and> int x + dx < int w \<and> 0 \<le> int y + dy \<and> int y + dy < int h
        then weight dx dy else 0)"

text \<open>Further example arrays: two bright pixels in a row, and an image of three by two pixels.\<close>

definition bright2x1 :: Uint8ClampedArray where
  "bright2x1 = [100, 100, 100, 255, 250, 250, 250, 255]"

definition ramp3x2 :: Uint8ClampedArray where
  "ramp3x2 =
     [100, 100, 100, 255, 250, 250, 250, 255, 1, 2, 3, 4,
      5, 6, 7, 8, 9, 10, 11, 12, 13, 14, 15, 16]"

text \<open>The two-entry palette of the scenario: black, then white.\<close>

definition blackWhite :: "rgb list" where
  "blackWhite = [(0, 0, 0), (255, 255, 255)]"

text \<open>The two grey pixels of the scenario, with alpha bytes 7 and 9.\<close>

definition gray2x1 :: Uint8ClampedArray where
  "gray2x1 = [128, 128, 128, 7, 128, 128, 128, 9]"

text \<open>
  A byte as a real number, and a colour of three bytes.  The sum of squares that the binary64
  loop computes for a palette entry.
\<close>

definition byte :: "real \<Rightarrow> bool" where
  "byte v \<longleftrightarrow> 0 \<le> v \<and> v \<le> 255 \<and> v = real_of_int \<lfloor>v\<rfloor>"

definition byteColor :: "rgb \<Rightarrow> bool" where
  "byteColor p \<longleftrightarrow> byte (fst p) \<and> byte (fst (snd p)) \<and> byte (snd (snd p))"

definition squaredDistance64 :: "double \<Rightarrow> double \<Rightarrow> double \<Rightarrow> rgb \<Rightarrow> double" where
  "squaredDistance64 r g b p =
     dadd (dadd (dpow2 (dsub r (Dbl (fst p)))) (dpow2 (dsub g (Dbl (fst (snd p))))))
       (dpow2 (dsub b (Dbl (snd (snd p)))))"


definition tieDistance :: double where
  "tieDistance = Dbl (5629499534213147 / 2 ^ 22)"

section \<open>The matcher\<close>

lemma closestLoop_Cons:
  "closestLoop r g b (p # rest) (m, c) =
     (if num_less (Math_sqrt (squaredDistance r g b p)) m
      then closestLoop r g b rest (Finite (Math_sqrt (squaredDistance r g b p)), p)
      else closestLoop r g b rest (m, c))"
  by (cases p) (simp add: squaredDistance_def Let_def)

lemma closestLoopSquared_Cons:
  "closestLoopSquared r g b (p # rest) (m, c) =
     (if num_less (squaredDistance r g b p) m
      then closestLoopSquared r g b rest (Finite (squaredDistance r g b p), p)
      else closestLoopSquared r g b rest (m, c))"
  by (cases p) (simp add: squaredDistance_def Let_def)

lemma squaredDistance_cases:
  "squaredDistance r g b p = NaN \<or> (\<exists>s. 0 \<le> s \<and> squaredDistance r g b p = Num s)"
  by (cases r; cases g; cases b) (simp_all add: squaredDistance_def)


lemma closestLoop_Finite:
  "0 \<le> m \<Longrightarrow>
   snd (closestLoop r g b pal (Finite (Num (sqrt m)), c)) =
   snd (closestLoopSquared r g b pal (Finite (Num m), c))"
proof (induction pal arbitrary: m c)
  case Nil
  show ?case by simp
next
  case (Cons p pal)
  from squaredDistance_cases[of r g b p] show ?case
  proof
    assume "squaredDistance r g b p = NaN"
    then show ?thesis using Cons by (simp add: closestLoop_Cons closestLoopSquared_Cons)
  next
    assume "\<exists>s. 0 \<le> s \<and> squaredDistance r g b p = Num s"
    then obtain s where s: "0 \<le> s" "squaredDistance r g b p = Num s" by blast
    then show ?thesis using Cons by (simp add: closestLoop_Cons closestLoopSquared_Cons)
  qed
qed

lemma closestLoop_Infinity:
  "snd (closestLoop r g b pal (Infinity, c)) = snd (closestLoopSquared r g b pal (Infinity, c))"
proof (induction pal arbitrary: c)
  case Nil
  show ?case by simp
next
  case (Cons p pal)
  from squaredDistance_cases[of r g b p] show ?case
  proof
    assume "squaredDistance r g b p = NaN"
    then show ?thesis using Cons by (simp add: closestLoop_Cons closestLoopSquared_Cons)
  next
    assume "\<exists>s. 0 \<le> s \<and> squaredDistance r g b p = Num s"
    then obtain s where s: "0 \<le> s" "squaredDistance r g b p = Num s" by blast
    then show ?thesis
      using closestLoop_Finite[of s] by (simp add: closestLoop_Cons closestLoopSquared_Cons)
  qed
qed

lemma closestLoop_mem: "snd (closestLoop r g b pal (m, c)) \<in> insert c (set pal)"
proof (induction pal arbitrary: m c)
  case Nil
  show ?case by simp
next
  case (Cons p pal)
  show ?case using Cons[of "Finite (Math_sqrt (squaredDistance r g b p))" p] Cons[of m c]
    by (auto simp add: closestLoop_Cons)
qed

lemma closestLoop_NaN:
  "r = NaN \<or> g = NaN \<or> b = NaN \<Longrightarrow> closestLoop r g b pal (m, c) = (m, c)"
proof (induction pal arbitrary: m c)
  case Nil
  show ?case by simp
next
  case (Cons p pal)
  have "squaredDistance r g b p = NaN"
    using Cons.prems by (cases r; cases g; cases b) (auto simp add: squaredDistance_def)
  then show ?case using Cons by (simp add: closestLoop_Cons)
qed


section \<open>Array updates\<close>

lemma length_store [simp]: "length (store a i v) = length a"
  by (simp add: store_def)

lemma length_addAssign [simp]: "length (addAssign a i v) = length a"
  by (simp add: addAssign_def)

lemma length_distributeError [simp]:
  "length (distributeError w h x y e dx dy f result) = length result"
  by (simp add: distributeError_def Let_def)

lemma length_loopBody [simp]: "length (loopBody pal w h x y result) = length result"
  by (simp add: loopBody_def Let_def)

lemma nth_store: "j < length a \<Longrightarrow> store a i v ! j = (if j = i then ToUint8Clamp v else a ! j)"
  by (simp add: store_def nth_list_update)

lemma nth_addAssign:
  "j < length a \<Longrightarrow>
   addAssign a i v ! j =
     (if j = i then ToUint8Clamp (num_add (Num (real (a ! j))) v) else a ! j)"
  by (simp add: addAssign_def nth_store load_def)

lemma three_addAssign:
  assumes "j < length a"
  shows "addAssign (addAssign (addAssign a (n * 4) u0) (n * 4 + 1) u1) (n * 4 + 2) u2 ! j =
     (if j div 4 = n \<and> j mod 4 < 3
      then ToUint8Clamp (num_add (Num (real (a ! j))) (chan (u0, u1, u2) (j mod 4)))
      else a ! j)"
proof -
  have "j = n * 4 \<or> j = n * 4 + 1 \<or> j = n * 4 + 2 \<or> j div 4 \<noteq> n \<or> j mod 4 = 3"
    by presburger
  then consider (c0) "j = n * 4" | (c1) "j = n * 4 + 1" | (c2) "j = n * 4 + 2"
    | (other) "j div 4 \<noteq> n \<or> j mod 4 = 3"
    by blast
  then show ?thesis
  proof cases
    case c0
    have "j div 4 = n" "j mod 4 = 0" "j \<noteq> n * 4 + 1" "j \<noteq> n * 4 + 2"
      using c0 by presburger+
    then show ?thesis using assms c0 by (simp add: nth_addAssign chan_def del: One_nat_def)
  next
    case c1
    have "j div 4 = n" "j mod 4 = 1" "j \<noteq> n * 4" "j \<noteq> n * 4 + 2"
      using c1 by presburger+
    then show ?thesis using assms c1 by (simp add: nth_addAssign chan_def)
  next
    case c2
    have "j div 4 = n" "j mod 4 = 2" "j \<noteq> n * 4" "j \<noteq> n * 4 + 1"
      using c2 by presburger+
    then show ?thesis using assms c2 by (simp add: nth_addAssign chan_def)
  next
    case other
    have "j \<noteq> n * 4" "j \<noteq> n * 4 + 1" "j \<noteq> n * 4 + 2"
      using other by presburger+
    then show ?thesis using assms other by (auto simp add: nth_addAssign)
  qed
qed

lemma chan_mul:
  "chan (num_mul (fst e) f, num_mul (fst (snd e)) f, num_mul (snd (snd e)) f) c = num_mul (chan e c) f"
  by (simp add: chan_def)

lemma nth_distributeError:
  assumes "j < length result"
  shows "distributeError w h x y e dx dy f result ! j =
     (if 0 \<le> int x + dx \<and> int x + dx < int w \<and> 0 \<le> int y + dy \<and> int y + dy < int h
         \<and> j div 4 = nat (int y + dy) * w + nat (int x + dx) \<and> j mod 4 < 3
      then ToUint8Clamp (num_add (Num (real (result ! j))) (num_mul (chan e (j mod 4)) (Num f)))
      else result ! j)"
proof (cases "int x + dx \<ge> 0 \<and> int x + dx < int w \<and> int y + dy \<ge> 0 \<and> int y + dy < int h")
  case False
  then show ?thesis by (auto simp add: distributeError_def Let_def)
next
  case True
  define n where "n = nat (int y + dy) * w + nat (int x + dx)"
  have "distributeError w h x y e dx dy f result =
      addAssign (addAssign (addAssign result (n * 4) (num_mul (fst e) (Num f)))
        (n * 4 + 1) (num_mul (fst (snd e)) (Num f))) (n * 4 + 2) (num_mul (snd (snd e)) (Num f))"
    using True by (simp add: distributeError_def Let_def getPixelIndex_def n_def)
  then show ?thesis
    using True assms by (simp only: three_addAssign chan_mul n_def) simp
qed

lemma three_store:
  assumes "j < length a"
  shows "store (store (store a (n * 4) v0) (n * 4 + 1) v1) (n * 4 + 2) v2 ! j =
     (if j div 4 = n \<and> j mod 4 < 3 then ToUint8Clamp (chan (v0, v1, v2) (j mod 4)) else a ! j)"
proof -
  have "j = n * 4 \<or> j = n * 4 + 1 \<or> j = n * 4 + 2 \<or> j div 4 \<noteq> n \<or> j mod 4 = 3"
    by presburger
  then consider (c0) "j = n * 4" | (c1) "j = n * 4 + 1" | (c2) "j = n * 4 + 2"
    | (other) "j div 4 \<noteq> n \<or> j mod 4 = 3"
    by blast
  then show ?thesis
  proof cases
    case c0
    have "j div 4 = n" "j mod 4 = 0" "j \<noteq> n * 4 + 1" "j \<noteq> n * 4 + 2"
      using c0 by presburger+
    then show ?thesis using assms c0 by (simp add: nth_store chan_def del: One_nat_def)
  next
    case c1
    have "j div 4 = n" "j mod 4 = 1" "j \<noteq> n * 4" "j \<noteq> n * 4 + 2"
      using c1 by presburger+
    then show ?thesis using assms c1 by (simp add: nth_store chan_def)
  next
    case c2
    have "j div 4 = n" "j mod 4 = 2" "j \<noteq> n * 4" "j \<noteq> n * 4 + 1"
      using c2 by presburger+
    then show ?thesis using assms c2 by (simp add: nth_store chan_def)
  next
    case other
    have "j \<noteq> n * 4" "j \<noteq> n * 4 + 1" "j \<noteq> n * 4 + 2"
      using other by presburger+
    then show ?thesis using assms other by (auto simp add: nth_store)
  qed
qed

lemma loopBody_unfold:
  "loopBody pal w h x y result =
     distributeError w h x y (errorAt pal w x y result) 1 1 (1 / 16)
       (distributeError w h x y (errorAt pal w x y result) 0 1 (5 / 16)
         (distributeError w h x y (errorAt pal w x y result) (- 1) 1 (3 / 16)
           (distributeError w h x y (errorAt pal w x y result) 1 0 (7 / 16)
             (quantized pal w x y result))))"
  by (simp add: loopBody_def Let_def errorAt_def newColorAt_def oldColorAt_def quantized_def
      split: prod.splits)

lemma length_quantized [simp]: "length (quantized pal w x y result) = length result"
  by (simp add: quantized_def split: prod.splits)

lemma nth_quantized:
  assumes "j < length result"
  shows "quantized pal w x y result ! j =
     (if j div 4 = y * w + x \<and> j mod 4 < 3
      then ToUint8Clamp (Num (chanR (newColorAt pal w x y result) (j mod 4)))
      else result ! j)"
proof -
  obtain nr ng nb where n: "newColorAt pal w x y result = (nr, ng, nb)"
    by (cases "newColorAt pal w x y result")
  have "chan (Num nr, Num ng, Num nb) c = Num (chanR (nr, ng, nb) c)" for c
    by (simp add: chan_def chanR_def)
  then show ?thesis
    using assms three_store[of j result "y * w + x" "Num nr" "Num ng" "Num nb"]
    by (simp add: quantized_def n getPixelIndex_def)
qed

lemma nth_distributeError_right:
  assumes "j < length result" "y < h"
  shows "distributeError w h x y e 1 0 f result ! j =
     (if x + 1 < w \<and> j div 4 = y * w + x + 1 \<and> j mod 4 < 3
      then diffused (result ! j) (chan e (j mod 4)) f else result ! j)"
  using assms by (auto simp add: nth_distributeError diffused_def nat_add_distrib)

lemma nth_distributeError_below_left:
  assumes "j < length result"
  shows "distributeError w h x y e (- 1) 1 f result ! j =
     (if 1 \<le> x \<and> x < w + 1 \<and> y + 1 < h \<and> j div 4 = (y + 1) * w + (x - 1) \<and> j mod 4 < 3
      then diffused (result ! j) (chan e (j mod 4)) f else result ! j)"
  using assms by (auto simp add: nth_distributeError diffused_def nat_add_distrib nat_diff_distrib)

lemma nth_distributeError_below:
  assumes "j < length result" "x < w"
  shows "distributeError w h x y e 0 1 f result ! j =
     (if y + 1 < h \<and> j div 4 = (y + 1) * w + x \<and> j mod 4 < 3
      then diffused (result ! j) (chan e (j mod 4)) f else result ! j)"
  using assms by (auto simp add: nth_distributeError diffused_def nat_add_distrib)

lemma nth_distributeError_below_right:
  assumes "j < length result"
  shows "distributeError w h x y e 1 1 f result ! j =
     (if x + 1 < w \<and> y + 1 < h \<and> j div 4 = (y + 1) * w + x + 1 \<and> j mod 4 < 3
      then diffused (result ! j) (chan e (j mod 4)) f else result ! j)"
  using assms by (auto simp add: nth_distributeError diffused_def nat_add_distrib)

lemma layers:
  fixes v :: "'a" and d1 d2 d3 d4 :: "'a \<Rightarrow> 'a"
  assumes "\<not> (P0 \<and> P1)" "\<not> (P0 \<and> P2)" "\<not> (P0 \<and> P3)" "\<not> (P0 \<and> P4)"
    "\<not> (P1 \<and> P2)" "\<not> (P1 \<and> P3)" "\<not> (P1 \<and> P4)"
    "\<not> (P2 \<and> P3)" "\<not> (P2 \<and> P4)" "\<not> (P3 \<and> P4)"
    and f0: "r0 = (if P0 \<and> \<not> A then a else v)"
    and f1: "r1 = (if P1 \<and> \<not> A then d1 r0 else r0)"
    and f2: "r2 = (if P2 \<and> \<not> A then d2 r1 else r1)"
    and f3: "r3 = (if P3 \<and> \<not> A then d3 r2 else r2)"
    and f4: "r4 = (if P4 \<and> \<not> A then d4 r3 else r3)"
  shows "r4 = (if A then v else if P0 then a else if P1 then d1 v else if P2 then d2 v
     else if P3 then d3 v else if P4 then d4 v else v)"
proof (cases A)
  case True
  then show ?thesis by (simp add: f0 f1 f2 f3 f4)
next
  case False
  have g0: "r0 = (if P0 then a else v)" using False f0 by simp
  have g1: "r1 = (if P0 then a else if P1 then d1 v else v)"
    using False f1 g0 assms(1) by auto
  have g2: "r2 = (if P0 then a else if P1 then d1 v else if P2 then d2 v else v)"
    using False f2 g1 assms(2,5) by auto
  have g3: "r3 = (if P0 then a else if P1 then d1 v else if P2 then d2 v else if P3 then d3 v else v)"
    using False f3 g2 assms(3,6,8) by auto
  show ?thesis
    using False f4 g3 assms(4,7,9,10) by auto
qed

lemma nth_loopBody:
  assumes "j < length result" "x < w" "y < h"
  shows "loopBody pal w h x y result ! j =
     (if j mod 4 = 3 then result ! j
      else if j div 4 = y * w + x
        then ToUint8Clamp (Num (chanR (newColorAt pal w x y result) (j mod 4)))
      else if x + 1 < w \<and> j div 4 = y * w + x + 1
        then diffused (result ! j) (chan (errorAt pal w x y result) (j mod 4)) (7 / 16)
      else if 1 \<le> x \<and> y + 1 < h \<and> j div 4 = (y + 1) * w + (x - 1)
        then diffused (result ! j) (chan (errorAt pal w x y result) (j mod 4)) (3 / 16)
      else if y + 1 < h \<and> j div 4 = (y + 1) * w + x
        then diffused (result ! j) (chan (errorAt pal w x y result) (j mod 4)) (5 / 16)
      else if x + 1 < w \<and> y + 1 < h \<and> j div 4 = (y + 1) * w + x + 1
        then diffused (result ! j) (chan (errorAt pal w x y result) (j mod 4)) (1 / 16)
      else result ! j)"
proof -
  define e where "e = errorAt pal w x y result"
  define r0 where "r0 = quantized pal w x y result"
  define r1 where "r1 = distributeError w h x y e 1 0 (7 / 16) r0"
  define r2 where "r2 = distributeError w h x y e (- 1) 1 (3 / 16) r1"
  define r3 where "r3 = distributeError w h x y e 0 1 (5 / 16) r2"
  define r4 where "r4 = distributeError w h x y e 1 1 (1 / 16) r3"
  define q where "q = j div 4"
  define P0 where "P0 \<longleftrightarrow> q = y * w + x"
  define P1 where "P1 \<longleftrightarrow> x + 1 < w \<and> q = y * w + x + 1"
  define P2 where "P2 \<longleftrightarrow> 1 \<le> x \<and> y + 1 < h \<and> q = (y + 1) * w + (x - 1)"
  define P3 where "P3 \<longleftrightarrow> y + 1 < h \<and> q = (y + 1) * w + x"
  define P4 where "P4 \<longleftrightarrow> x + 1 < w \<and> y + 1 < h \<and> q = (y + 1) * w + x + 1"
  define A where "A \<longleftrightarrow> j mod 4 = 3"
  have A: "j mod 4 < 3 \<longleftrightarrow> \<not> A" unfolding A_def by presburger
  have mw: "(y + 1) * w = y * w + w" by simp
  have len: "length r0 = length result" "length r1 = length result"
    "length r2 = length result" "length r3 = length result"
    by (simp_all add: r0_def r1_def r2_def r3_def)
  have f0: "r0 ! j = (if P0 \<and> \<not> A
      then ToUint8Clamp (Num (chanR (newColorAt pal w x y result) (j mod 4))) else result ! j)"
    using assms(1) by (simp add: r0_def nth_quantized A P0_def q_def)
  have f1: "r1 ! j = (if P1 \<and> \<not> A then diffused (r0 ! j) (chan e (j mod 4)) (7 / 16) else r0 ! j)"
    using assms len by (simp add: r1_def nth_distributeError_right A P1_def q_def)
  have f2: "r2 ! j = (if P2 \<and> \<not> A then diffused (r1 ! j) (chan e (j mod 4)) (3 / 16) else r1 ! j)"
    using assms len by (auto simp add: r2_def nth_distributeError_below_left A P2_def q_def)
  have f3: "r3 ! j = (if P3 \<and> \<not> A then diffused (r2 ! j) (chan e (j mod 4)) (5 / 16) else r2 ! j)"
    using assms len by (simp add: r3_def nth_distributeError_below A P3_def q_def)
  have f4: "r4 ! j = (if P4 \<and> \<not> A then diffused (r3 ! j) (chan e (j mod 4)) (1 / 16) else r3 ! j)"
    using assms len by (simp add: r4_def nth_distributeError_below_right A P4_def q_def)
  have excl: "\<not> (P0 \<and> P1)" "\<not> (P0 \<and> P2)" "\<not> (P0 \<and> P3)" "\<not> (P0 \<and> P4)"
    "\<not> (P1 \<and> P2)" "\<not> (P1 \<and> P3)" "\<not> (P1 \<and> P4)"
    "\<not> (P2 \<and> P3)" "\<not> (P2 \<and> P4)" "\<not> (P3 \<and> P4)"
    using assms(2) unfolding P0_def P1_def P2_def P3_def P4_def mw by linarith+
  have main: "r4 ! j =
     (if A then result ! j
      else if P0 then ToUint8Clamp (Num (chanR (newColorAt pal w x y result) (j mod 4)))
      else if P1 then diffused (result ! j) (chan e (j mod 4)) (7 / 16)
      else if P2 then diffused (result ! j) (chan e (j mod 4)) (3 / 16)
      else if P3 then diffused (result ! j) (chan e (j mod 4)) (5 / 16)
      else if P4 then diffused (result ! j) (chan e (j mod 4)) (1 / 16)
      else result ! j)"
    by (rule layers[where ?d1.0 = "\<lambda>v. diffused v (chan e (j mod 4)) (7 / 16)"
          and ?d2.0 = "\<lambda>v. diffused v (chan e (j mod 4)) (3 / 16)"
          and ?d3.0 = "\<lambda>v. diffused v (chan e (j mod 4)) (5 / 16)"
          and ?d4.0 = "\<lambda>v. diffused v (chan e (j mod 4)) (1 / 16)",
          OF excl f0 f1 f2 f3 f4])
  have eq: "loopBody pal w h x y result = r4"
    by (simp add: loopBody_unfold r4_def r3_def r2_def r1_def r0_def e_def)
  show ?thesis
    unfolding eq main by (simp only: A_def P0_def P1_def P2_def P3_def P4_def q_def e_def)
qed

section \<open>The scan\<close>

lemma innerLoop_fold:
  "innerLoop pal w h y result =
     fold (\<lambda>p. loopBody pal w h (p mod w) (p div w)) [y * w..<y * w + w] result"
proof -
  have "[y * w..<y * w + w] = map (\<lambda>x. x + y * w) [0..<w]"
    by (simp add: map_add_upt add.commute)
  moreover have "fold ((\<lambda>p. loopBody pal w h (p mod w) (p div w)) \<circ> (\<lambda>x. x + y * w)) [0..<w] result
      = fold (\<lambda>x. loopBody pal w h x y) [0..<w] result"
    by (rule fold_cong) auto
  ultimately show ?thesis by (simp add: innerLoop_def fold_map)
qed

lemma rows_pixelsDone:
  "fold (\<lambda>y. innerLoop pal w h y) [0..<n] result = pixelsDone pal w h (n * w) result"
proof (induction n)
  case 0
  show ?case by (simp add: pixelsDone_def)
next
  case (Suc n)
  let ?F = "\<lambda>p. loopBody pal w h (p mod w) (p div w)"
  have "[0..<n * w + w] = [0..<n * w] @ [n * w..<n * w + w]"
    by (rule upt_add_eq_append) simp
  moreover have "Suc n * w = n * w + w" by simp
  ultimately have split: "[0..<Suc n * w] = [0..<n * w] @ [n * w..<n * w + w]"
    by (simp only:)
  have "fold (\<lambda>y. innerLoop pal w h y) [0..<Suc n] result =
      innerLoop pal w h n (fold (\<lambda>y. innerLoop pal w h y) [0..<n] result)"
    by simp
  also have "\<dots> = innerLoop pal w h n (pixelsDone pal w h (n * w) result)"
    by (simp only: Suc)
  also have "\<dots> = fold ?F [n * w..<n * w + w] (fold ?F [0..<n * w] result)"
    by (simp only: innerLoop_fold pixelsDone_def)
  also have "\<dots> = fold ?F ([0..<n * w] @ [n * w..<n * w + w]) result"
    by (simp only: fold_append comp_def)
  also have "\<dots> = pixelsDone pal w h (Suc n * w) result"
    by (simp only: pixelsDone_def split)
  finally show ?case .
qed

lemma outerLoop_pixelsDone: "outerLoop pal w h result = pixelsDone pal w h (h * w) result"
  by (simp add: outerLoop_def rows_pixelsDone)

lemma pixelsDone_0 [simp]: "pixelsDone pal w h 0 result = result"
  by (simp add: pixelsDone_def)

lemma pixelsDone_Suc:
  "pixelsDone pal w h (Suc k) result =
     loopBody pal w h (k mod w) (k div w) (pixelsDone pal w h k result)"
  by (simp add: pixelsDone_def)

lemma length_pixelsDone [simp]: "length (pixelsDone pal w h k result) = length result"
  by (induction k) (simp_all add: pixelsDone_Suc)

lemma length_outerLoop [simp]: "length (outerLoop pal w h result) = length result"
  by (simp add: outerLoop_pixelsDone)

lemma coords:
  fixes k h w :: nat
  assumes "k < h * w"
  shows "k mod w < w" "k div w < h" "k div w * w + k mod w = k"
proof -
  have "0 < w" using assms by (cases w) auto
  then show "k mod w < w" by simp
  show "k div w < h" using assms by (simp add: less_mult_imp_div_less)
  show "k div w * w + k mod w = k" by simp
qed

lemma loopBody_alpha:
  "j < length result \<Longrightarrow> x < w \<Longrightarrow> y < h \<Longrightarrow> j mod 4 = 3 \<Longrightarrow>
   loopBody pal w h x y result ! j = result ! j"
  by (simp add: nth_loopBody)

lemma loopBody_before:
  assumes "j < length result" "x < w" "y < h" "j div 4 < y * w + x"
  shows "loopBody pal w h x y result ! j = result ! j"
proof -
  have "j div 4 \<noteq> y * w + x" "j div 4 \<noteq> y * w + x + 1" "j div 4 \<noteq> (y + 1) * w + x"
    "j div 4 \<noteq> (y + 1) * w + x + 1"
    using assms(4) by simp_all
  moreover have "1 \<le> x \<longrightarrow> j div 4 \<noteq> (y + 1) * w + (x - 1)"
    using assms(2,4) by auto
  ultimately show ?thesis
    using assms by (auto simp add: nth_loopBody)
qed

lemma loopBody_current:
  assumes "j < length result" "x < w" "y < h" "j div 4 = y * w + x" "j mod 4 \<noteq> 3"
  shows "loopBody pal w h x y result ! j =
     ToUint8Clamp (Num (chanR (newColorAt pal w x y result) (j mod 4)))"
  using assms by (simp add: nth_loopBody)

lemma pixelsDone_alpha:
  "j < length result \<Longrightarrow> j mod 4 = 3 \<Longrightarrow> k \<le> h * w \<Longrightarrow>
   pixelsDone pal w h k result ! j = result ! j"
proof (induction k)
  case 0
  show ?case by simp
next
  case (Suc k)
  then have "k < h * w" by simp
  from coords[OF this] Suc show ?case
    by (simp add: pixelsDone_Suc loopBody_alpha)
qed

lemma pixelsDone_stable:
  assumes "j < length result" "j div 4 < k"
  shows "k + n \<le> h * w \<Longrightarrow> pixelsDone pal w h (k + n) result ! j = pixelsDone pal w h k result ! j"
proof (induction n)
  case 0
  show ?case by simp
next
  case (Suc n)
  then have lt: "k + n < h * w" by simp
  have "j div 4 < (k + n) div w * w + (k + n) mod w"
    using assms(2) coords(3)[OF lt] by simp
  then have "loopBody pal w h ((k + n) mod w) ((k + n) div w) (pixelsDone pal w h (k + n) result) ! j
      = pixelsDone pal w h (k + n) result ! j"
    using assms(1) coords(1,2)[OF lt] by (intro loopBody_before) simp_all
  then show ?case using Suc by (simp add: pixelsDone_Suc)
qed

lemma ToUint8Clamp_le: "ToUint8Clamp v \<le> 255"
proof (cases v)
  case NaN
  then show ?thesis by simp
next
  case (Num r)
  define c where "c = min (max r 0) 255"
  have c: "0 \<le> c" "c \<le> 255" by (simp_all add: c_def)
  then have f: "0 \<le> \<lfloor>c\<rfloor>" "\<lfloor>c\<rfloor> \<le> 255" by (simp_all add: floor_le_iff le_floor_iff)
  have "\<lfloor>c\<rfloor> = 255 \<Longrightarrow> c < real_of_int \<lfloor>c\<rfloor> + 1 / 2"
    using c by linarith
  then have "c < real_of_int \<lfloor>c\<rfloor> + 1 / 2 \<or> \<lfloor>c\<rfloor> + 1 \<le> 255" using f by linarith
  then show ?thesis using f unfolding Num ToUint8Clamp.simps Let_def c_def[symmetric]
    by (auto simp add: nat_le_iff)
qed

lemma bytes_store: "bytes a \<Longrightarrow> bytes (store a i v)"
  using ToUint8Clamp_le by (auto simp add: bytes_def store_def dest!: set_update_subset_insert[THEN subsetD])

lemma bytes_addAssign: "bytes a \<Longrightarrow> bytes (addAssign a i v)"
  by (simp add: addAssign_def bytes_store)

lemma bytes_distributeError: "bytes result \<Longrightarrow> bytes (distributeError w h x y e dx dy f result)"
  by (simp add: distributeError_def Let_def bytes_addAssign)

lemma bytes_loopBody: "bytes result \<Longrightarrow> bytes (loopBody pal w h x y result)"
  by (simp add: loopBody_def Let_def bytes_distributeError bytes_store)

lemma bytes_pixelsDone: "bytes result \<Longrightarrow> bytes (pixelsDone pal w h k result)"
  by (induction k) (simp_all add: pixelsDone_Suc bytes_loopBody)

section \<open>The array after the scan\<close>

lemma ditherWith_eq:
  "ditherWith pal img h =
     (\<lparr>width = width img, height = height img, data = length h\<rparr>,
      h @ [outerLoop pal (width img) (height img) (h ! data img)])"
  by (simp add: ditherWith_def new_Uint8ClampedArray_def)

lemma pixel_number:
  fixes x y w h :: nat
  assumes "x < w" "y < h"
  shows "y * w + x < h * w" "(y * w + x) mod w = x" "(y * w + x) div w = y"
proof -
  have "y * w + x < Suc y * w" using assms(1) by simp
  moreover have "Suc y * w \<le> h * w" using assms(2) by (intro mult_le_mono1) simp
  ultimately show "y * w + x < h * w" by linarith
  show "(y * w + x) mod w = x" using assms(1) by simp
  show "(y * w + x) div w = y" using assms(1) by simp
qed

lemma PALETTE_channels:
  "p \<in> set PALETTE \<Longrightarrow> c < 3 \<Longrightarrow> real (ToUint8Clamp (Num (chanR p c))) = chanR p c"
  by (auto simp add: PALETTE_def chanR_def)

lemma newColorAt_PALETTE: "newColorAt PALETTE w x y result \<in> set PALETTE"
proof -
  have "(0, 0, 0) \<in> set PALETTE" by (simp add: PALETTE_def)
  then have "insert (0, 0, 0) (set PALETTE) = set PALETTE" by auto
  then show ?thesis
    using closestLoop_mem[of _ _ _ PALETTE Infinity "(0, 0, 0)"]
    by (simp add: newColorAt_def closestIn_def split: prod.splits)
qed

lemma pixelAt_chanR:
  "pixelAt a w x y = p \<longleftrightarrow>
     (\<forall>c<3. real (a ! (getPixelIndex w x y + c)) = chanR p c)"
proof -
  have "(\<forall>c<3. P c) \<longleftrightarrow> P 0 \<and> P 1 \<and> P (2::nat)" for P
  proof -
    have "c < 3 \<longleftrightarrow> c = 0 \<or> c = 1 \<or> c = 2" for c :: nat by auto
    then show ?thesis by auto
  qed
  then show ?thesis
    by (cases p) (auto simp add: pixelAt_def chanR_def)
qed

lemma index_div_mod:
  assumes "c < 4"
  shows "(getPixelIndex w x y + c) div 4 = y * w + x" "(getPixelIndex w x y + c) mod 4 = c"
proof -
  define q where "q = y * w + x"
  have "(q * 4 + c) div 4 = q" "(q * 4 + c) mod 4 = c" using assms by simp_all
  then show "(getPixelIndex w x y + c) div 4 = y * w + x" "(getPixelIndex w x y + c) mod 4 = c"
    unfolding getPixelIndex_def q_def by blast+
qed

lemma loopBody_finalizes:
  assumes "x < w" "y < h" "getPixelIndex w x y + 2 < length result"
  shows "pixelAt (loopBody PALETTE w h x y result) w x y = newColorAt PALETTE w x y result"
  unfolding pixelAt_chanR
proof (intro allI impI)
  fix c :: nat
  assume c: "c < 3"
  then have j: "getPixelIndex w x y + c < length result" using assms(3) by simp
  have "loopBody PALETTE w h x y result ! (getPixelIndex w x y + c) =
      ToUint8Clamp (Num (chanR (newColorAt PALETTE w x y result) c))"
    using loopBody_current[OF j assms(1,2)] c by (simp add: index_div_mod)
  then show "real (loopBody PALETTE w h x y result ! (getPixelIndex w x y + c)) =
      chanR (newColorAt PALETTE w x y result) c"
    using PALETTE_channels[OF newColorAt_PALETTE c] by simp
qed

lemma outerLoop_pixel:
  assumes "x < w" "y < h" "c < 4" "getPixelIndex w x y + c < length result"
  shows "outerLoop pal w h result ! (getPixelIndex w x y + c) =
     loopBody pal w h x y (pixelsDone pal w h (y * w + x) result) ! (getPixelIndex w x y + c)"
proof -
  define q where "q = y * w + x"
  have q: "q < h * w" "q mod w = x" "q div w = y"
    using pixel_number[OF assms(1,2)] by (simp_all add: q_def)
  obtain n where n: "h * w = Suc q + n" using q(1) less_iff_Suc_add by auto
  have "(getPixelIndex w x y + c) div 4 < Suc q"
    using assms(3) by (simp add: index_div_mod q_def)
  from pixelsDone_stable[OF assms(4) this, of n h w pal]
  have "pixelsDone pal w h (h * w) result ! (getPixelIndex w x y + c) =
      pixelsDone pal w h (Suc q) result ! (getPixelIndex w x y + c)"
    using n by simp
  then show ?thesis
    by (simp add: outerLoop_pixelsDone pixelsDone_Suc q q_def[symmetric])
qed

lemma outerLoop_finalized:
  assumes "x < w" "y < h" "getPixelIndex w x y + 2 < length result"
  shows "pixelAt (outerLoop PALETTE w h result) w x y \<in> set PALETTE"
proof -
  have "pixelAt (outerLoop PALETTE w h result) w x y =
      pixelAt (loopBody PALETTE w h x y (pixelsDone PALETTE w h (y * w + x) result)) w x y"
    using assms outerLoop_pixel[OF assms(1,2), of 0 result PALETTE]
      outerLoop_pixel[OF assms(1,2), of 1 result PALETTE]
      outerLoop_pixel[OF assms(1,2), of 2 result PALETTE]
    by (simp add: pixelAt_def)
  also have "\<dots> = newColorAt PALETTE w x y (pixelsDone PALETTE w h (y * w + x) result)"
    using assms by (intro loopBody_finalizes) simp_all
  finally show ?thesis by (simp add: newColorAt_PALETTE)
qed

lemma outerLoop_alpha:
  assumes "j < length result" "j mod 4 = 3"
  shows "outerLoop pal w h result ! j = result ! j"
  using assms by (simp add: outerLoop_pixelsDone pixelsDone_alpha)

section \<open>The exact loop: nearest entry, earliest on a tie\<close>


lemma closestInSquared_closestIn: "closestInSquared palette r g b = closestIn palette r g b"
  by (simp add: closestIn_def closestInSquared_def closestLoop_Infinity)

section \<open>Every finalized pixel is a palette entry\<close>

text \<open>
  Claim C1.  For an image whose \<open>data\<close> array is allocated and every pixel \<open>(x, y)\<close> of it whose
  three colour bytes lie inside the array, the colour stored for the pixel in the array that
  \<open>floydSteinbergDithering\<close> returns is an entry of \<open>PALETTE\<close>; and it is an entry of
  \<open>PALETTE\<close> already at the end of the iteration that visits the pixel, whatever the working
  array held before.
\<close>

theorem finalized_pixels_in_palette:
  assumes "data imageData < length h"
    and "x < width imageData" and "y < height imageData"
    and "getPixelIndex (width imageData) x y + 2 < length (h ! data imageData)"
  shows "pixelAt (snd (floydSteinbergDithering imageData h)
                    ! data (fst (floydSteinbergDithering imageData h)))
           (width imageData) x y \<in> set PALETTE
     \<and> (\<forall>result. getPixelIndex (width imageData) x y + 2 < length result \<longrightarrow>
           pixelAt (loopBody PALETTE (width imageData) (height imageData) x y result)
             (width imageData) x y \<in> set PALETTE)"
proof
  show "pixelAt (snd (floydSteinbergDithering imageData h)
                    ! data (fst (floydSteinbergDithering imageData h)))
           (width imageData) x y \<in> set PALETTE"
    using outerLoop_finalized[OF assms(2,3,4)]
    by (simp add: floydSteinbergDithering_def ditherWith_eq)
  show "\<forall>result. getPixelIndex (width imageData) x y + 2 < length result \<longrightarrow>
           pixelAt (loopBody PALETTE (width imageData) (height imageData) x y result)
             (width imageData) x y \<in> set PALETTE"
    using loopBody_finalizes[OF assms(2,3)] newColorAt_PALETTE by simp
qed

theorem finalized_pixels_in_palette_witness:
  "data image2x1 < length heap2x1
   \<and> 1 < width image2x1 \<and> 0 < height image2x1
   \<and> getPixelIndex (width image2x1) 1 0 + 2 < length (heap2x1 ! data image2x1)
   \<and> pixelAt (snd (floydSteinbergDithering image2x1 heap2x1)
                ! data (fst (floydSteinbergDithering image2x1 heap2x1)))
        (width image2x1) 1 0 \<in> set PALETTE"
proof -
  have h1: "data image2x1 < length heap2x1" by (simp add: image2x1_def heap2x1_def)
  have h2: "1 < width image2x1" by (simp add: image2x1_def)
  have h3: "0 < height image2x1" by (simp add: image2x1_def)
  have h4: "getPixelIndex (width image2x1) 1 0 + 2 < length (heap2x1 ! data image2x1)"
    by (simp add: getPixelIndex_def image2x1_def heap2x1_def)
  show ?thesis
    using h1 h2 h3 h4 finalized_pixels_in_palette [OF h1 h2 h3 h4] by blast
qed

section \<open>The alpha channel\<close>

text \<open>
  Claim C7.  For every pixel whose alpha byte (offset 3 of its slot) lies inside the array, the
  alpha byte of the returned array equals that of the input array; the two arrays have the same
  length.
\<close>

theorem alpha_unchanged:
  assumes "data imageData < length h"
    and "getPixelIndex (width imageData) x y + 3 < length (h ! data imageData)"
  shows "(snd (floydSteinbergDithering imageData h) ! data (fst (floydSteinbergDithering imageData h)))
           ! (getPixelIndex (width imageData) x y + 3)
         = (h ! data imageData) ! (getPixelIndex (width imageData) x y + 3)
     \<and> length (snd (floydSteinbergDithering imageData h)
                 ! data (fst (floydSteinbergDithering imageData h)))
         = length (h ! data imageData)"
proof -
  have "(getPixelIndex (width imageData) x y + 3) mod 4 = 3"
    by (simp add: index_div_mod)
  then show ?thesis
    using assms(2) by (simp add: floydSteinbergDithering_def ditherWith_eq outerLoop_alpha)
qed

theorem alpha_unchanged_witness:
  "data image2x1 < length heap2x1
   \<and> getPixelIndex (width image2x1) 1 0 + 3 < length (heap2x1 ! data image2x1)
   \<and> (snd (floydSteinbergDithering image2x1 heap2x1)
          ! data (fst (floydSteinbergDithering image2x1 heap2x1)))
        ! (getPixelIndex (width image2x1) 1 0 + 3) = 9"
proof -
  have h1: "data image2x1 < length heap2x1" by (simp add: image2x1_def heap2x1_def)
  have h2: "getPixelIndex (width image2x1) 1 0 + 3 < length (heap2x1 ! data image2x1)"
    by (simp add: getPixelIndex_def image2x1_def heap2x1_def)
  have "(heap2x1 ! data image2x1) ! (getPixelIndex (width image2x1) 1 0 + 3) = 9"
    by (simp add: getPixelIndex_def image2x1_def heap2x1_def)
  then show ?thesis
    using h1 h2 alpha_unchanged [OF h1 h2] by presburger
qed

section \<open>Determinism\<close>

text \<open>
  Claim C8.  Two runs of \<open>floydSteinbergDithering\<close> on images of the same width and height
  whose \<open>data\<close> arrays hold the same bytes return arrays holding the same bytes, and images
  of the same dimensions, whatever else the two heaps contain; in particular a second run on
  the same image after a first one.
\<close>

theorem dithering_deterministic:
  assumes "data img1 < length h1" and "data img2 < length h2"
    and "width img1 = width img2" and "height img1 = height img2"
    and "h1 ! data img1 = h2 ! data img2"
  shows "snd (floydSteinbergDithering img1 h1) ! data (fst (floydSteinbergDithering img1 h1))
         = snd (floydSteinbergDithering img2 h2) ! data (fst (floydSteinbergDithering img2 h2))
     \<and> width (fst (floydSteinbergDithering img1 h1)) = width (fst (floydSteinbergDithering img2 h2))
     \<and> height (fst (floydSteinbergDithering img1 h1)) = height (fst (floydSteinbergDithering img2 h2))"
  using assms(3-5) by (simp add: floydSteinbergDithering_def ditherWith_eq)

theorem dithering_deterministic_witness:
  "data image2x1 < length heap2x1
   \<and> data image2x1 < length (snd (floydSteinbergDithering image2x1 heap2x1))
   \<and> width image2x1 = width image2x1 \<and> height image2x1 = height image2x1
   \<and> heap2x1 ! data image2x1 = snd (floydSteinbergDithering image2x1 heap2x1) ! data image2x1
   \<and> snd (floydSteinbergDithering image2x1 heap2x1)
         ! data (fst (floydSteinbergDithering image2x1 heap2x1))
       = snd (floydSteinbergDithering image2x1 (snd (floydSteinbergDithering image2x1 heap2x1)))
         ! data (fst (floydSteinbergDithering image2x1
                       (snd (floydSteinbergDithering image2x1 heap2x1))))"
proof -
  let ?h2 = "snd (floydSteinbergDithering image2x1 heap2x1)"
  have h1: "data image2x1 < length heap2x1" by (simp add: image2x1_def heap2x1_def)
  have h2: "data image2x1 < length ?h2"
    by (simp add: floydSteinbergDithering_def ditherWith_eq image2x1_def heap2x1_def)
  have h3: "width image2x1 = width image2x1" by simp
  have h4: "height image2x1 = height image2x1" by simp
  have h5: "heap2x1 ! data image2x1 = ?h2 ! data image2x1"
    by (simp add: floydSteinbergDithering_def ditherWith_eq image2x1_def heap2x1_def)
  show ?thesis
    using h1 h2 h5 dithering_deterministic [OF h1 h2 h3 h4 h5] by blast
qed

section \<open>The input image is not written\<close>

text \<open>
  Claim C10.  After \<open>floydSteinbergDithering\<close> the input's \<open>data\<close> array, and every other array
  allocated before the call, holds the bytes it held before.  Exactly one array is allocated;
  the returned image refers to it, it is different from the input's array, it holds the result
  of the scan started on a copy of the input's bytes, and the returned image has the input's
  width and height.
\<close>

theorem input_not_mutated:
  assumes "data imageData < length h"
  shows "snd (floydSteinbergDithering imageData h) ! data imageData = h ! data imageData
     \<and> (\<forall>a<length h. snd (floydSteinbergDithering imageData h) ! a = h ! a)
     \<and> length (snd (floydSteinbergDithering imageData h)) = Suc (length h)
     \<and> data (fst (floydSteinbergDithering imageData h)) = length h
     \<and> data (fst (floydSteinbergDithering imageData h)) \<noteq> data imageData
     \<and> snd (floydSteinbergDithering imageData h) ! data (fst (floydSteinbergDithering imageData h))
         = outerLoop PALETTE (width imageData) (height imageData) (h ! data imageData)
     \<and> width (fst (floydSteinbergDithering imageData h)) = width imageData
     \<and> height (fst (floydSteinbergDithering imageData h)) = height imageData"
  using assms by (simp add: floydSteinbergDithering_def ditherWith_eq nth_append)

theorem input_not_mutated_witness:
  "data image2x1 < length heap2x1
   \<and> snd (floydSteinbergDithering image2x1 heap2x1) ! data image2x1
       = [128, 128, 128, 7, 128, 128, 128, 9]
   \<and> data (fst (floydSteinbergDithering image2x1 heap2x1)) = 1
   \<and> length (snd (floydSteinbergDithering image2x1 heap2x1)) = 2"
proof -
  have h1: "data image2x1 < length heap2x1" by (simp add: image2x1_def heap2x1_def)
  have "heap2x1 ! data image2x1 = [128, 128, 128, 7, 128, 128, 128, 9]" "length heap2x1 = 1"
    by (simp_all add: image2x1_def heap2x1_def)
  then show ?thesis
    using h1 input_not_mutated [OF h1] by simp
qed

section \<open>One step of error diffusion\<close>

lemma index_in_range:
  assumes "x < w" "y < h" "c < 4" "length result = 4 * w * h"
  shows "getPixelIndex w x y + c < length result"
proof -
  have aux: "q < n \<Longrightarrow> q * 4 + c < 4 * n" for q n :: nat using assms(3) by arith
  have "y * w + x < w * h" using pixel_number(1)[OF assms(1,2)] by (simp add: mult.commute)
  from aux[OF this] show ?thesis using assms(4) by (simp add: getPixelIndex_def)
qed

lemma pixel_number_inj:
  fixes x y x' y' w :: nat
  assumes "x < w" "x' < w"
  shows "y' * w + x' = y * w + x \<longleftrightarrow> x' = x \<and> y' = y"
proof
  assume eq: "y' * w + x' = y * w + x"
  have "(y' * w + x') mod w = x'" "(y' * w + x') div w = y'" using assms(2) by simp_all
  moreover have "(y * w + x) mod w = x" "(y * w + x) div w = y" using assms(1) by simp_all
  ultimately show "x' = x \<and> y' = y" using eq by metis
qed simp

lemma errorAt_in_range:
  assumes "getPixelIndex w x y + 2 < length result" "c < 3"
  shows "chan (errorAt pal w x y result) c =
     Num (chanR (pixelAt result w x y) c - chanR (newColorAt pal w x y result) c)"
proof -
  obtain nr ng nb where n: "newColorAt pal w x y result = (nr, ng, nb)"
    by (cases "newColorAt pal w x y result")
  have old: "oldColorAt w x y result =
      (Num (real (result ! getPixelIndex w x y)), Num (real (result ! (getPixelIndex w x y + 1))),
       Num (real (result ! (getPixelIndex w x y + 2))))"
    using assms(1) by (simp add: oldColorAt_def load_def)
  show ?thesis
    by (simp add: errorAt_def old n chan_def chanR_def pixelAt_def)
qed

lemma diffused_Num: "diffused v (Num e) f = ToUint8Clamp (Num (real v + e * f))"
  by (simp add: diffused_def)

lemma weight_cases:
  fixes x y x' y' :: nat
  shows "weight (int x' - int x) (int y' - int y) =
     (if x' = x + 1 \<and> y' = y then 7 / 16
      else if x' + 1 = x \<and> y' = y + 1 then 3 / 16
      else if x' = x \<and> y' = y + 1 then 5 / 16
      else if x' = x + 1 \<and> y' = y + 1 then 1 / 16
      else 0)"
  by (auto simp add: weight_def)

lemma totalWeight_eq:
  assumes "x < w" "y < h"
  shows "totalWeight w h x y =
     (if x + 1 < w then 7 / 16 else 0) + (if 1 \<le> x \<and> y + 1 < h then 3 / 16 else 0)
     + (if y + 1 < h then 5 / 16 else 0) + (if x + 1 < w \<and> y + 1 < h then 1 / 16 else 0)"
  using assms by (auto simp add: totalWeight_def weight_def)

section \<open>Evaluating the loop body on example arrays\<close>

lemma list_update_Cons_numeral:
  "(x # xs)[numeral v := y] = x # xs[numeral v - 1 := y]"
  by (simp add: numeral_eq_Suc)

lemmas run_loopBody = loopBody_unfold quantized_def errorAt_def newColorAt_def oldColorAt_def
  distributeError_def addAssign_def store_def load_def getPixelIndex_def Let_def
  list_update_Cons_numeral

lemma closest_250: "closestIn PALETTE (Num 250) (Num 250) (Num 250) = (255, 255, 255)"
  by (simp add: closestIn_def PALETTE_def)

lemma loopBody_ramp3x2:
  "loopBody PALETTE 3 2 1 0 ramp3x2 =
     [100, 100, 100, 255, 255, 255, 255, 255, 0, 0, 1, 4,
      4, 5, 6, 8, 7, 8, 9, 12, 13, 14, 15, 16]"
  by (simp add: ramp3x2_def run_loopBody closest_250)

section \<open>What one iteration writes\<close>

text \<open>
  Claim C3, as amended.  Let \<open>(x, y)\<close> be a pixel of a \<open>w\<close> by \<open>h\<close> image whose array has
  \<open>4 * w * h\<close> bytes.  After the iteration for \<open>(x, y)\<close>, a colour byte \<open>c\<close> of a pixel
  \<open>(x', y')\<close> of the image holds: at \<open>(x, y)\<close> itself the new colour; at \<open>(x + 1, y)\<close>,
  \<open>(x - 1, y + 1)\<close>, \<open>(x, y + 1)\<close> and \<open>(x + 1, y + 1)\<close> the value
  \<open>ToUint8Clamp (old + (oldColor[c] - newColor[c]) * k)\<close> with \<open>k\<close> the weight \<open>7/16\<close>, \<open>3/16\<close>,
  \<open>5/16\<close>, \<open>1/16\<close> of the offset, that is the sum rounded to the nearest integer and clamped to
  \<open>[0, 255]\<close>; at every other pixel its old value.  A neighbour outside the image is not a
  pixel of the image, and nothing is written for it.  The weights of the neighbours inside the
  image sum to 1 exactly when \<open>0 < x\<close>, \<open>x + 1 < w\<close> and \<open>y + 1 < h\<close>, and to less otherwise.
\<close>

theorem error_diffusion_step:
  assumes "x < w" and "y < h" and "length result = 4 * w * h"
    and "x' < w" and "y' < h" and "c < 3"
  shows "loopBody pal w h x y result ! (getPixelIndex w x' y' + c) =
      (if (x', y') = (x, y) then ToUint8Clamp (Num (chanR (newColorAt pal w x y result) c))
       else if weight (int x' - int x) (int y' - int y) = 0
         then result ! (getPixelIndex w x' y' + c)
       else ToUint8Clamp (Num (real (result ! (getPixelIndex w x' y' + c))
              + (chanR (pixelAt result w x y) c - chanR (newColorAt pal w x y result) c)
                * weight (int x' - int x) (int y' - int y))))
     \<and> (totalWeight w h x y = 1 \<longleftrightarrow> 0 < x \<and> x + 1 < w \<and> y + 1 < h)
     \<and> totalWeight w h x y \<le> 1"
proof (intro conjI)
  define j where "j = getPixelIndex w x' y' + c"
  define e where "e = chanR (pixelAt result w x y) c - chanR (newColorAt pal w x y result) c"
  have c4: "c < 4" using assms(6) by simp
  have jl: "j < length result"
    unfolding j_def using index_in_range[OF assms(4,5) c4 assms(3)] .
  have jd: "j div 4 = y' * w + x'" and jm: "j mod 4 = c"
    unfolding j_def using index_div_mod[OF c4] by blast+
  have "getPixelIndex w x y + 2 < length result"
    using index_in_range[OF assms(1,2) _ assms(3), of 2] by simp
  then have err: "chan (errorAt pal w x y result) c = Num e"
    unfolding e_def using assms(6) by (rule errorAt_in_range)
  have E0: "y' * w + x' = y * w + x \<longleftrightarrow> x' = x \<and> y' = y"
    using pixel_number_inj[OF assms(1,4)] .
  have E1: "x + 1 < w \<and> y' * w + x' = y * w + x + 1 \<longleftrightarrow> x' = x + 1 \<and> y' = y"
    using pixel_number_inj[of "x + 1" w x' y' y] assms(4) by auto
  have E2: "1 \<le> x \<and> y + 1 < h \<and> y' * w + x' = (y + 1) * w + (x - 1)
      \<longleftrightarrow> x' + 1 = x \<and> y' = y + 1"
    using pixel_number_inj[of "x - 1" w x' y' "y + 1"] assms(1,4,5) by auto
  have E3: "y + 1 < h \<and> y' * w + x' = (y + 1) * w + x \<longleftrightarrow> x' = x \<and> y' = y + 1"
    using pixel_number_inj[of x w x' y' "y + 1"] assms(1,4,5) by auto
  have E4: "x + 1 < w \<and> y + 1 < h \<and> y' * w + x' = (y + 1) * w + x + 1
      \<longleftrightarrow> x' = x + 1 \<and> y' = y + 1"
    using pixel_number_inj[of "x + 1" w x' y' "y + 1"] assms(4,5) by auto
  have step: "loopBody pal w h x y result ! j =
     (if x' = x \<and> y' = y then ToUint8Clamp (Num (chanR (newColorAt pal w x y result) c))
      else if x' = x + 1 \<and> y' = y then diffused (result ! j) (Num e) (7 / 16)
      else if x' + 1 = x \<and> y' = y + 1 then diffused (result ! j) (Num e) (3 / 16)
      else if x' = x \<and> y' = y + 1 then diffused (result ! j) (Num e) (5 / 16)
      else if x' = x + 1 \<and> y' = y + 1 then diffused (result ! j) (Num e) (1 / 16)
      else result ! j)"
    using assms(6)
    by (simp only: nth_loopBody[OF jl assms(1,2)] jd jm err E0 E1 E2 E3 E4) simp
  consider (same) "x' = x \<and> y' = y"
    | (right) "x' = x + 1 \<and> y' = y"
    | (below_left) "x' + 1 = x \<and> y' = y + 1"
    | (below) "x' = x \<and> y' = y + 1"
    | (below_right) "x' = x + 1 \<and> y' = y + 1"
    | (other) "\<not> (x' = x \<and> y' = y)" "\<not> (x' = x + 1 \<and> y' = y)" "\<not> (x' + 1 = x \<and> y' = y + 1)"
        "\<not> (x' = x \<and> y' = y + 1)" "\<not> (x' = x + 1 \<and> y' = y + 1)"
    by blast
  then have "loopBody pal w h x y result ! j =
      (if (x', y') = (x, y) then ToUint8Clamp (Num (chanR (newColorAt pal w x y result) c))
       else if weight (int x' - int x) (int y' - int y) = 0 then result ! j
       else ToUint8Clamp (Num (real (result ! j) + e * weight (int x' - int x) (int y' - int y))))"
  proof cases
    case same
    then show ?thesis unfolding step by simp
  next
    case right
    then have wt: "weight (int x' - int x) (int y' - int y) = 7 / 16"
      by (simp add: weight_def)
    show ?thesis unfolding step wt using right
      by (simp add: diffused_Num del: ToUint8Clamp.simps)
  next
    case below_left
    then have wt: "weight (int x' - int x) (int y' - int y) = 3 / 16"
      by (auto simp add: weight_def)
    show ?thesis unfolding step wt using below_left
      by (auto simp add: diffused_Num simp del: ToUint8Clamp.simps)
  next
    case below
    then have wt: "weight (int x' - int x) (int y' - int y) = 5 / 16"
      by (simp add: weight_def)
    show ?thesis unfolding step wt using below
      by (simp add: diffused_Num del: ToUint8Clamp.simps)
  next
    case below_right
    then have wt: "weight (int x' - int x) (int y' - int y) = 1 / 16"
      by (simp add: weight_def)
    show ?thesis unfolding step wt using below_right
      by (simp add: diffused_Num del: ToUint8Clamp.simps)
  next
    case other
    then have wt: "weight (int x' - int x) (int y' - int y) = 0"
      unfolding weight_cases by simp
    show ?thesis unfolding step wt using other by (auto simp del: ToUint8Clamp.simps)
  qed
  then show "loopBody pal w h x y result ! (getPixelIndex w x' y' + c) =
      (if (x', y') = (x, y) then ToUint8Clamp (Num (chanR (newColorAt pal w x y result) c))
       else if weight (int x' - int x) (int y' - int y) = 0
         then result ! (getPixelIndex w x' y' + c)
       else ToUint8Clamp (Num (real (result ! (getPixelIndex w x' y' + c))
              + (chanR (pixelAt result w x y) c - chanR (newColorAt pal w x y result) c)
                * weight (int x' - int x) (int y' - int y))))"
    unfolding j_def e_def .
  show "totalWeight w h x y = 1 \<longleftrightarrow> 0 < x \<and> x + 1 < w \<and> y + 1 < h"
    by (auto simp add: totalWeight_eq[OF assms(1,2)])
  show "totalWeight w h x y \<le> 1"
    by (simp add: totalWeight_eq[OF assms(1,2)])
qed

theorem error_diffusion_step_witness:
  "(1 :: nat) < 3 \<and> (0 :: nat) < 2 \<and> length ramp3x2 = 4 * 3 * 2
   \<and> (0 :: nat) < 3 \<and> (1 :: nat) < 2 \<and> (0 :: nat) < 3
   \<and> loopBody PALETTE 3 2 1 0 ramp3x2 ! (getPixelIndex 3 0 1 + 0) = 4
   \<and> totalWeight 3 2 1 0 = 1 \<and> totalWeight 3 2 1 0 \<le> 1"
proof -
  have h3: "length ramp3x2 = 4 * 3 * 2" by (simp add: ramp3x2_def)
  have new: "newColorAt PALETTE 3 1 0 ramp3x2 = (255, 255, 255)"
    by (simp add: newColorAt_def oldColorAt_def load_def getPixelIndex_def ramp3x2_def closest_250)
  have old: "pixelAt ramp3x2 3 1 0 = (250, 250, 250)"
    by (simp add: pixelAt_def getPixelIndex_def ramp3x2_def)
  have nb: "ramp3x2 ! getPixelIndex 3 0 1 = 5"
    by (simp add: getPixelIndex_def ramp3x2_def)
  have w: "weight (- 1) 1 = 3 / 16"
    by (simp add: weight_def)
  have "loopBody PALETTE 3 2 1 0 ramp3x2 ! (getPixelIndex 3 0 1 + 0) = 4
      \<and> (totalWeight 3 2 1 0 = 1 \<longleftrightarrow> (0 :: nat) < 1 \<and> (1 :: nat) + 1 < 3 \<and> (0 :: nat) + 1 < 2)
      \<and> totalWeight 3 2 1 0 \<le> 1"
    using error_diffusion_step [of 1 3 0 2 ramp3x2 0 1 0 PALETTE] h3
    by (simp add: new old nb w chanR_def del: One_nat_def)
  then show ?thesis using h3 by simp
qed

theorem diffusion_rounds_counterexample:
  "errorAt PALETTE 3 1 0 ramp3x2 = (Num (- 5), Num (- 5), Num (- 5))
   \<and> real (loopBody PALETTE 3 2 1 0 ramp3x2 ! getPixelIndex 3 0 1)
       \<noteq> real (ramp3x2 ! getPixelIndex 3 0 1) + (- 5) * (3 / 16)
   \<and> totalWeight 3 2 1 0 = 1"
proof -
  have "errorAt PALETTE 3 1 0 ramp3x2 = (Num (- 5), Num (- 5), Num (- 5))"
    by (simp add: errorAt_def newColorAt_def oldColorAt_def load_def getPixelIndex_def
        ramp3x2_def closest_250)
  moreover have "loopBody PALETTE 3 2 1 0 ramp3x2 ! getPixelIndex 3 0 1 = 4"
    by (simp add: loopBody_ramp3x2 getPixelIndex_def del: One_nat_def)
  moreover have "ramp3x2 ! getPixelIndex 3 0 1 = 5"
    by (simp add: getPixelIndex_def ramp3x2_def)
  moreover have "totalWeight 3 2 1 0 = 1"
    by (simp add: totalWeight_def weight_def)
  ultimately show ?thesis by simp
qed

section \<open>Every store clamps\<close>

lemma bytes_fold:
  assumes "\<And>x a. bytes a \<Longrightarrow> bytes (f x a)"
  shows "bytes a \<Longrightarrow> bytes (fold f xs a)"
  by (induction xs arbitrary: a) (simp_all add: assms)

lemma bytes_innerLoop: "bytes result \<Longrightarrow> bytes (innerLoop pal w h y result)"
  unfolding innerLoop_def by (rule bytes_fold) (rule bytes_loopBody)

lemma bytes_outerLoop: "bytes result \<Longrightarrow> bytes (outerLoop pal w h result)"
  unfolding outerLoop_def by (rule bytes_fold) (rule bytes_innerLoop)

lemma closest_100: "closestIn PALETTE (Num 100) (Num 100) (Num 100) = (0, 0, 0)"
  by (simp add: closestIn_def PALETTE_def)

lemma loopBody_bright2x1:
  "loopBody PALETTE 2 1 0 0 bright2x1 = [0, 0, 0, 255, 255, 255, 255, 255]"
  by (simp add: bright2x1_def run_loopBody closest_100)

text \<open>
  Claim C2, as amended.  The working array is a \<open>Uint8ClampedArray\<close>: the value that
  \<open>result[i] += v\<close> stores is \<open>ToUint8Clamp (result[i] + v)\<close>, which is at most 255 (and, as a
  natural number, not negative).  So an array of bytes is still an array of bytes after each
  \<open>+=\<close> of the diffusion, after each call of \<open>distributeError\<close>, after each iteration, after
  each row and after the whole scan: a pixel that has not been visited yet never holds a value
  outside \<open>[0, 255]\<close>.
\<close>

theorem stores_are_clamped:
  assumes "bytes result"
  shows "(i < length result \<longrightarrow>
            addAssign result i v ! i = ToUint8Clamp (num_add (Num (real (result ! i))) v))
     \<and> ToUint8Clamp (num_add (Num (real (result ! i))) v) \<le> 255
     \<and> bytes (addAssign result i v)
     \<and> bytes (distributeError w h x y e dx dy f result)
     \<and> bytes (loopBody pal w h x y result)
     \<and> bytes (innerLoop pal w h y result)
     \<and> bytes (outerLoop pal w h result)"
  using assms
  by (simp add: nth_addAssign ToUint8Clamp_le bytes_addAssign bytes_distributeError
      bytes_loopBody bytes_innerLoop bytes_outerLoop del: ToUint8Clamp.simps)

theorem stores_are_clamped_witness:
  "bytes bright2x1
   \<and> addAssign bright2x1 4 (Num (100 * (7 / 16))) ! 4 = 255
   \<and> bytes (loopBody PALETTE 2 1 0 0 bright2x1)
   \<and> bytes (outerLoop PALETTE 2 1 bright2x1)"
proof -
  have h: "bytes bright2x1" by (simp add: bytes_def bright2x1_def)
  have "(4 :: nat) < length bright2x1" by (simp add: bright2x1_def)
  moreover have "ToUint8Clamp (num_add (Num (real (bright2x1 ! 4))) (Num (100 * (7 / 16)))) = 255"
    by (simp add: bright2x1_def)
  ultimately show ?thesis
    using h stores_are_clamped [OF h, of 4 "Num (100 * (7 / 16))" 2 1 0 0 _ _ _ _ PALETTE]
    by simp
qed

theorem diffusion_clamps_counterexample:
  "errorAt PALETTE 2 0 0 bright2x1 = (Num 100, Num 100, Num 100)
   \<and> real (bright2x1 ! getPixelIndex 2 1 0) + 100 * (7 / 16) = 1175 / 4
   \<and> loopBody PALETTE 2 1 0 0 bright2x1 ! getPixelIndex 2 1 0 = 255"
proof -
  have "errorAt PALETTE 2 0 0 bright2x1 = (Num 100, Num 100, Num 100)"
    by (simp add: errorAt_def newColorAt_def oldColorAt_def load_def getPixelIndex_def
        bright2x1_def closest_100)
  moreover have "real (bright2x1 ! getPixelIndex 2 1 0) + 100 * (7 / 16) = 1175 / 4"
    by (simp add: getPixelIndex_def bright2x1_def)
  moreover have "loopBody PALETTE 2 1 0 0 bright2x1 ! getPixelIndex 2 1 0 = 255"
    by (simp add: loopBody_bright2x1 getPixelIndex_def del: One_nat_def)
  ultimately show ?thesis by blast
qed

section \<open>The scenario of two grey pixels\<close>

lemma closest_bw_128: "closestIn blackWhite (Num 128) (Num 128) (Num 128) = (255, 255, 255)"
  by (simp add: closestIn_def blackWhite_def)

lemma closest_bw_72: "closestIn blackWhite (Num 72) (Num 72) (Num 72) = (0, 0, 0)"
  by (simp add: closestIn_def blackWhite_def)

lemma closest_128: "closestIn PALETTE (Num 128) (Num 128) (Num 128) = (255, 255, 255)"
  by (simp add: closestIn_def PALETTE_def)

lemma closest_72: "closestIn PALETTE (Num 72) (Num 72) (Num 72) = (0, 0, 0)"
  by (simp add: closestIn_def PALETTE_def)

lemma scan_2x1:
  "outerLoop pal 2 1 result = loopBody pal 2 1 1 0 (loopBody pal 2 1 0 0 result)"
proof -
  have "[0..<2] = [0, 1 :: nat]" by (simp add: upt_rec)
  moreover have "[0..<1] = [0 :: nat]" by simp
  ultimately show ?thesis by (simp add: outerLoop_def innerLoop_def del: upt_Suc)
qed

lemma step1_bw: "loopBody blackWhite 2 1 0 0 gray2x1 = [255, 255, 255, 7, 72, 72, 72, 9]"
  by (simp add: gray2x1_def run_loopBody closest_bw_128)

lemma step2_bw:
  "loopBody blackWhite 2 1 1 0 [255, 255, 255, 7, 72, 72, 72, 9] = [255, 255, 255, 7, 0, 0, 0, 9]"
  by (simp add: run_loopBody closest_bw_72)

lemma step1_PALETTE: "loopBody PALETTE 2 1 0 0 gray2x1 = [255, 255, 255, 7, 72, 72, 72, 9]"
  by (simp add: gray2x1_def run_loopBody closest_128)

lemma step2_PALETTE:
  "loopBody PALETTE 2 1 1 0 [255, 255, 255, 7, 72, 72, 72, 9] = [255, 255, 255, 7, 0, 0, 0, 9]"
  by (simp add: run_loopBody closest_72)

text \<open>
  Claim C5, as amended.  In the image of two pixels \<open>(128, 128, 128)\<close> in one row, with the
  palette black, white: the first pixel is nearer to white than to black, so no tie arises and
  it becomes \<open>(255, 255, 255)\<close>; its error is \<open>(-127, -127, -127)\<close>; before the second pixel is
  visited each of its colour bytes becomes \<open>ToUint8Clamp (128 - 127 * 7/16) = 72\<close>; the second
  pixel is then quantized on \<open>(72, 72, 72)\<close>, to \<open>(0, 0, 0)\<close>.  The program's own palette gives
  the same final array.
\<close>

theorem scenario_2x1:
  "euclid 128 128 128 (255, 255, 255) < euclid 128 128 128 (0, 0, 0)
   \<and> newColorAt blackWhite 2 0 0 gray2x1 = (255, 255, 255)
   \<and> errorAt blackWhite 2 0 0 gray2x1 = (Num (- 127), Num (- 127), Num (- 127))
   \<and> loopBody blackWhite 2 1 0 0 gray2x1 = [255, 255, 255, 7, 72, 72, 72, 9]
   \<and> ToUint8Clamp (Num (128 + (- 127) * (7 / 16))) = 72
   \<and> newColorAt blackWhite 2 1 0 (loopBody blackWhite 2 1 0 0 gray2x1) = (0, 0, 0)
   \<and> outerLoop blackWhite 2 1 gray2x1 = [255, 255, 255, 7, 0, 0, 0, 9]
   \<and> outerLoop PALETTE 2 1 gray2x1 = [255, 255, 255, 7, 0, 0, 0, 9]"
proof (intro conjI)
  show "euclid 128 128 128 (255, 255, 255) < euclid 128 128 128 (0, 0, 0)"
    by (simp add: euclid_def)
  show "newColorAt blackWhite 2 0 0 gray2x1 = (255, 255, 255)"
    by (simp add: newColorAt_def oldColorAt_def load_def getPixelIndex_def gray2x1_def
        closest_bw_128)
  show "errorAt blackWhite 2 0 0 gray2x1 = (Num (- 127), Num (- 127), Num (- 127))"
    by (simp add: errorAt_def newColorAt_def oldColorAt_def load_def getPixelIndex_def
        gray2x1_def closest_bw_128)
  show "loopBody blackWhite 2 1 0 0 gray2x1 = [255, 255, 255, 7, 72, 72, 72, 9]"
    by (rule step1_bw)
  show "ToUint8Clamp (Num (128 + (- 127) * (7 / 16))) = 72"
    by simp
  show "newColorAt blackWhite 2 1 0 (loopBody blackWhite 2 1 0 0 gray2x1) = (0, 0, 0)"
    unfolding step1_bw
    by (simp add: newColorAt_def oldColorAt_def load_def getPixelIndex_def closest_bw_72)
  show "outerLoop blackWhite 2 1 gray2x1 = [255, 255, 255, 7, 0, 0, 0, 9]"
    unfolding scan_2x1 step1_bw step2_bw ..
  show "outerLoop PALETTE 2 1 gray2x1 = [255, 255, 255, 7, 0, 0, 0, 9]"
    unfolding scan_2x1 step1_PALETTE step2_PALETTE ..
qed

theorem scenario_2x1_counterexample:
  "closestIn blackWhite (Num 128) (Num 128) (Num 128) = (255, 255, 255)
   \<and> closestIn blackWhite (Num 128) (Num 128) (Num 128) \<noteq> (0, 0, 0)
   \<and> euclid 128 128 128 (0, 0, 0) \<noteq> euclid 128 128 128 (255, 255, 255)"
  by (simp add: closest_bw_128 euclid_def)

section \<open>Rounding to binary64\<close>

text \<open>
  Rounding moves a real by at most half a unit in the last place; it leaves an integer below
  \<open>2 ^ 53\<close> in place; and once the exponent of a real is known, its rounding is the rounding of
  the scaled real to an integer.
\<close>

lemma roundHalfEven_of_int [simp]: "roundHalfEven (real_of_int k) = k"
  by (simp add: roundHalfEven_def)

lemma roundHalfEven_error: "\<bar>real_of_int (roundHalfEven y) - y\<bar> \<le> 1 / 2"
  unfolding roundHalfEven_def Let_def by (auto; linarith)

lemma roundHalfEven_near:
  assumes "\<bar>y - real_of_int k\<bar> < 1 / 2"
  shows "roundHalfEven y = k"
proof -
  have "\<lfloor>y\<rfloor> = k \<and> y < real_of_int k + 1 / 2 \<or> \<lfloor>y\<rfloor> = k - 1 \<and> y > real_of_int (k - 1) + 1 / 2"
    using assms by (auto simp add: floor_eq_iff abs_less_iff)
  then show ?thesis
    by (auto simp add: roundHalfEven_def Let_def)
qed

lemma roundHalfEven_mono:
  assumes "x \<le> y"
  shows "roundHalfEven x \<le> roundHalfEven y"
proof -
  have "\<lfloor>x\<rfloor> \<le> \<lfloor>y\<rfloor>" using assms by (rule floor_mono)
  then consider "\<lfloor>x\<rfloor> = \<lfloor>y\<rfloor>" | "\<lfloor>x\<rfloor> + 1 \<le> \<lfloor>y\<rfloor>" by linarith
  then show ?thesis
  proof cases
    case 1
    then show ?thesis using assms unfolding roundHalfEven_def Let_def by auto
  next
    case 2
    have "roundHalfEven x \<le> \<lfloor>x\<rfloor> + 1" unfolding roundHalfEven_def Let_def by auto
    moreover have "\<lfloor>y\<rfloor> \<le> roundHalfEven y" unfolding roundHalfEven_def Let_def by auto
    ultimately show ?thesis using 2 by linarith
  qed
qed

lemma exponent_eq:
  assumes "2 powi e \<le> \<bar>x\<bar>" "\<bar>x\<bar> < 2 powi (e + 1)" "- 1022 \<le> e"
  shows "exponent x = e"
proof -
  have "(0::real) < 2 powi e" by simp
  then have pos: "0 < \<bar>x\<bar>" using assms(1) by linarith
  have "2 powr real_of_int (e + 1) = 2 powi (e + 1)" "2 powr real_of_int e = (2::real) powi e"
    by (rule powr_real_of_int'; simp)+
  then have "\<lfloor>log 2 \<bar>x\<bar>\<rfloor> = e"
    using assms(1,2) pos by (simp add: floor_log_eq_powr_iff)
  then show ?thesis using assms(3) by (simp add: exponent_def)
qed

lemma nearest_eval:
  assumes "2 powi e \<le> \<bar>x\<bar>" "\<bar>x\<bar> < 2 powi (e + 1)" "- 1022 \<le> e"
  shows "nearest x = real_of_int (roundHalfEven (x / 2 powi (e - 52))) * 2 powi (e - 52)"
proof -
  have "(0::real) < 2 powi e" by simp
  then have "0 < \<bar>x\<bar>" using assms(1) by linarith
  then have "x \<noteq> 0" by simp
  then show ?thesis by (simp add: nearest_def exponent_eq[OF assms])
qed

lemma nearest_of_int:
  assumes "\<bar>n\<bar> < 2 ^ 53"
  shows "nearest (real_of_int n) = real_of_int n"
proof (cases "n = 0")
  case True
  then show ?thesis by (simp add: nearest_def)
next
  case False
  define x where "x = \<bar>real_of_int n\<bar>"
  define e where "e = \<lfloor>log 2 x\<rfloor>"
  have x1: "1 \<le> x" using False by (simp add: x_def)
  have x53: "x < 2 ^ 53" using assms unfolding x_def
    by (metis of_int_abs of_int_less_numeral_power_cancel_iff)
  have "2 powr real_of_int e \<le> x \<and> x < 2 powr real_of_int (e + 1)"
    using x1 floor_log_eq_powr_iff[of x 2 e] by (simp add: e_def)
  moreover have "2 powr real_of_int (e + 1) = 2 powi (e + 1)" "2 powr real_of_int e = (2::real) powi e"
    by (rule powr_real_of_int'; simp)+
  ultimately have b: "2 powi e \<le> x" "x < 2 powi (e + 1)" by simp_all
  have e0: "0 \<le> e" using x1 by (simp add: e_def)
  have "(2::real) powi e < 2 powi 53" using b(1) x53 by simp
  then have "e < 53" by (rule power_int_le_imp_less_exp[rotated]) simp_all
  then have e52: "e \<le> 52" by simp
  define k where "k = nat (52 - e)"
  have u: "(2::real) powi (e - 52) = 1 / 2 ^ k"
    using e52 by (simp add: k_def power_int_def nat_diff_distrib field_simps)
  have "real_of_int n / 2 powi (e - 52) = real_of_int (n * 2 ^ k)"
    by (simp add: u)
  then have "roundHalfEven (real_of_int n / 2 powi (e - 52)) = n * 2 ^ k"
    by (simp only: roundHalfEven_of_int)
  moreover have "nearest (real_of_int n) =
      real_of_int (roundHalfEven (real_of_int n / 2 powi (e - 52))) * 2 powi (e - 52)"
    using b e0 by (intro nearest_eval) (simp_all add: x_def)
  ultimately show ?thesis by (simp add: u)
qed

lemma nearest_error:
  "\<bar>nearest x - x\<bar> \<le> 2 powi (exponent x - 52) / 2"
proof (cases "x = 0")
  case True
  then show ?thesis by (simp add: nearest_def)
next
  case False
  define u :: real where "u = 2 powi (exponent x - 52)"
  have u: "0 < u" by (simp add: u_def)
  have "nearest x - x = u * (real_of_int (roundHalfEven (x / u)) - x / u)"
    using False u by (simp add: nearest_def u_def field_simps)
  then have "\<bar>nearest x - x\<bar> = u * \<bar>real_of_int (roundHalfEven (x / u)) - x / u\<bar>"
    using u by (simp add: abs_mult)
  also have "\<dots> \<le> u * (1 / 2)"
    using u roundHalfEven_error[of "x / u"] by (intro mult_left_mono) simp_all
  finally show ?thesis by (simp add: u_def)
qed

lemma nearest_error_below_512:
  assumes "1 \<le> x" "x < 512"
  shows "\<bar>nearest x - x\<bar> \<le> 1 / 2 ^ 45"
proof -
  have "log 2 x < 9"
    using assms by (simp add: log_less_iff)
  then have "\<lfloor>log 2 \<bar>x\<bar>\<rfloor> \<le> 8" using assms(1) by (simp add: floor_le_iff)
  then have "exponent x - 52 \<le> - 44" by (simp add: exponent_def)
  then have "(2::real) powi (exponent x - 52) \<le> 2 powi (- 44)"
    by (intro power_int_increasing) simp_all
  then have "2 powi (exponent x - 52) / 2 \<le> (1::real) / 2 ^ 45"
    by (simp add: power_int_minus field_simps)
  then show ?thesis using nearest_error[of x] by linarith
qed

lemma toDouble_of_int:
  assumes "\<bar>n\<bar> < 2 ^ 53"
  shows "toDouble (real_of_int n) = Dbl (real_of_int n)"
proof -
  have "\<bar>real_of_int n\<bar> < 2 ^ 53"
    using assms by (metis of_int_abs of_int_less_numeral_power_cancel_iff)
  moreover have "(2::real) ^ 53 \<le> 2 ^ 1024" by simp
  ultimately have "\<bar>real_of_int n\<bar> < 2 ^ 1024" by linarith
  then show ?thesis by (simp add: toDouble_def nearest_of_int[OF assms] del: of_int_abs)
qed

lemma toDouble_numeral:
  "numeral n < (2::real) ^ 53 \<Longrightarrow> toDouble (numeral n) = Dbl (numeral n)"
  using toDouble_of_int[of "numeral n"] by simp

lemma toDouble_neg_numeral:
  "numeral n < (2::real) ^ 53 \<Longrightarrow> toDouble (- numeral n) = Dbl (- numeral n)"
  using toDouble_of_int[of "- numeral n"] by simp

lemma toDouble_eval:
  assumes "2 powi e \<le> \<bar>x\<bar>" "\<bar>x\<bar> < 2 powi (e + 1)" "- 1022 \<le> e"
    and "\<bar>x / 2 powi (e - 52) - real_of_int k\<bar> < 1 / 2"
    and "\<bar>real_of_int k * 2 powi (e - 52)\<bar> < 2 ^ 1024"
  shows "toDouble x = Dbl (real_of_int k * 2 powi (e - 52))"
proof -
  have "nearest x = real_of_int k * 2 powi (e - 52)"
    by (simp only: nearest_eval[OF assms(1-3)] roundHalfEven_near[OF assms(4)])
  then show ?thesis using assms(5) by (simp add: toDouble_def)
qed

text \<open>
  The rounded square root is strictly increasing on the integers up to \<open>3 * 255 ^ 2 = 195075\<close>:
  two such square roots differ by more than \<open>1/884\<close>, and rounding moves each by at most \<open>2 ^ (- 45)\<close>.
\<close>

lemma nearest_sqrt_strict:
  fixes a b :: nat
  assumes "a < b" "b \<le> 195075"
  shows "nearest (sqrt (real a)) < nearest (sqrt (real b))"
proof -
  define d :: real where "d = 1 / 2 ^ 45"
  have d: "0 < d" "d < 1" "2 * d < 1 / 884" by (simp_all add: d_def)
  have b1: "1 \<le> sqrt (real b)" using assms(1) by simp
  have "real b < 442\<^sup>2" using assms(2) by simp
  then have b442: "sqrt (real b) < 442" by (intro real_less_lsqrt) simp_all
  then have "\<bar>nearest (sqrt (real b)) - sqrt (real b)\<bar> \<le> d"
    unfolding d_def using b1 by (intro nearest_error_below_512) simp_all
  then have eb: "sqrt (real b) - d \<le> nearest (sqrt (real b))" by linarith
  show ?thesis
  proof (cases "a = 0")
    case True
    have "nearest (sqrt (real a)) = 0" using True by (simp add: nearest_def)
    moreover have "0 < nearest (sqrt (real b))" using eb b1 d by linarith
    ultimately show ?thesis by simp
  next
    case False
    then have a1: "1 \<le> sqrt (real a)" by simp
    have lt: "sqrt (real a) < sqrt (real b)" using assms(1) by simp
    then have a442: "sqrt (real a) < 442" using b442 by linarith
    then have "\<bar>nearest (sqrt (real a)) - sqrt (real a)\<bar> \<le> d"
      unfolding d_def using a1 by (intro nearest_error_below_512) simp_all
    then have ea: "nearest (sqrt (real a)) \<le> sqrt (real a) + d" by linarith
    define t where "t = sqrt (real b) - sqrt (real a)"
    define u where "u = sqrt (real b) + sqrt (real a)"
    have "t * u = real b - real a"
      by (simp add: t_def u_def algebra_simps)
    moreover have "1 \<le> real b - real a" using assms(1) by linarith
    ultimately have tu: "1 \<le> t * u" by simp
    have u: "u < 884" "0 < u" using a442 b442 a1 b1 unfolding u_def by linarith+
    have t: "0 < t" using lt by (simp add: t_def)
    have "t * u \<le> t * 884" using t u by (intro mult_left_mono) simp_all
    then have "1 / 884 \<le> t" using tu by simp
    then show ?thesis using ea eb d unfolding t_def by linarith
  qed
qed

lemma nearest_sqrt_less_iff:
  fixes a b :: nat
  assumes "a \<le> 195075" "b \<le> 195075"
  shows "nearest (sqrt (real a)) < nearest (sqrt (real b)) \<longleftrightarrow> a < b"
proof (cases a b rule: linorder_cases)
  case less
  then show ?thesis using nearest_sqrt_strict[OF less assms(2)] by simp
next
  case equal
  then show ?thesis by simp
next
  case greater
  then show ?thesis using nearest_sqrt_strict[OF greater assms(1)] by simp
qed

section \<open>The binary64 loop on byte channels\<close>

text \<open>
  For byte channels and a palette of byte colours every difference, square and sum of the loop
  is an integer of at most \<open>195075\<close>, so none of them rounds, and the comparisons of the rounded
  square roots come out as the comparisons of the exact ones: the binary64 loop returns the
  entry that the exact loop returns.  With a \<open>NaN\<close> channel both loops return \<open>(0, 0, 0)\<close>.
\<close>

lemma closestLoop64_Cons:
  "closestLoop64 r g b (p # rest) (m, c) =
     (if dless (dsqrt (squaredDistance64 r g b p)) m
      then closestLoop64 r g b rest (dsqrt (squaredDistance64 r g b p), p)
      else closestLoop64 r g b rest (m, c))"
  by (cases p) (simp add: squaredDistance64_def Let_def)

lemma closestLoopSquared64_Cons:
  "closestLoopSquared64 r g b (p # rest) (m, c) =
     (if dless (squaredDistance64 r g b p) m
      then closestLoopSquared64 r g b rest (squaredDistance64 r g b p, p)
      else closestLoopSquared64 r g b rest (m, c))"
  by (cases p) (simp add: squaredDistance64_def Let_def)

lemma byteE:
  assumes "byte v"
  obtains k :: int where "0 \<le> k" "k \<le> 255" "v = real_of_int k"
proof -
  have "0 \<le> \<lfloor>v\<rfloor>" "\<lfloor>v\<rfloor> \<le> 255" "v = real_of_int \<lfloor>v\<rfloor>"
    using assms unfolding byte_def by (simp_all add: floor_le_iff)
  then show thesis by (rule that)
qed

lemma byte_numeral [simp]: "byte (numeral n) \<longleftrightarrow> numeral n \<le> (255 :: real)"
  by (simp add: byte_def)

lemma byte_0 [simp]: "byte 0"
  by (simp add: byte_def)

lemma squaredDistance64_bytes:
  assumes "byte r" "byte g" "byte b" "byteColor p"
  shows "\<exists>s :: nat. s \<le> 195075
     \<and> squaredDistance64 (Dbl r) (Dbl g) (Dbl b) p = Dbl (real s)
     \<and> squaredDistance (Num r) (Num g) (Num b) p = Num (real s)"
proof -
  obtain r' where r: "0 \<le> r'" "r' \<le> 255" "r = real_of_int r'" using assms(1) by (rule byteE)
  obtain g' where g: "0 \<le> g'" "g' \<le> 255" "g = real_of_int g'" using assms(2) by (rule byteE)
  obtain b' where b: "0 \<le> b'" "b' \<le> 255" "b = real_of_int b'" using assms(3) by (rule byteE)
  obtain pr where pr: "0 \<le> pr" "pr \<le> 255" "fst p = real_of_int pr"
    using assms(4) unfolding byteColor_def by (elim conjE byteE)
  obtain pg where pg: "0 \<le> pg" "pg \<le> 255" "fst (snd p) = real_of_int pg"
    using assms(4) unfolding byteColor_def by (elim conjE byteE)
  obtain pb where pb: "0 \<le> pb" "pb \<le> 255" "snd (snd p) = real_of_int pb"
    using assms(4) unfolding byteColor_def by (elim conjE byteE)
  define i where "i = r' - pr"
  define j where "j = g' - pg"
  define k where "k = b' - pb"
  have ai: "\<bar>i\<bar> \<le> 255" "\<bar>j\<bar> \<le> 255" "\<bar>k\<bar> \<le> 255"
    using r g b pr pg pb by (simp_all add: i_def j_def k_def)
  have sq: "i\<^sup>2 \<le> 65025" "j\<^sup>2 \<le> 65025" "k\<^sup>2 \<le> 65025" "0 \<le> i\<^sup>2" "0 \<le> j\<^sup>2" "0 \<le> k\<^sup>2"
    using ai power2_le_iff_abs_le[of 255 i] power2_le_iff_abs_le[of 255 j]
      power2_le_iff_abs_le[of 255 k] by simp_all
  have d1: "dsub (Dbl r) (Dbl (fst p)) = Dbl (real_of_int i)"
    using ai toDouble_of_int[of i] by (simp add: r pr i_def)
  have d2: "dsub (Dbl g) (Dbl (fst (snd p))) = Dbl (real_of_int j)"
    using ai toDouble_of_int[of j] by (simp add: g pg j_def)
  have d3: "dsub (Dbl b) (Dbl (snd (snd p))) = Dbl (real_of_int k)"
    using ai toDouble_of_int[of k] by (simp add: b pb k_def)
  have p1: "dpow2 (Dbl (real_of_int i)) = Dbl (real_of_int (i\<^sup>2))"
    using sq toDouble_of_int[of "i\<^sup>2"] by simp
  have p2: "dpow2 (Dbl (real_of_int j)) = Dbl (real_of_int (j\<^sup>2))"
    using sq toDouble_of_int[of "j\<^sup>2"] by simp
  have p3: "dpow2 (Dbl (real_of_int k)) = Dbl (real_of_int (k\<^sup>2))"
    using sq toDouble_of_int[of "k\<^sup>2"] by simp
  have a1: "dadd (Dbl (real_of_int (i\<^sup>2))) (Dbl (real_of_int (j\<^sup>2))) = Dbl (real_of_int (i\<^sup>2 + j\<^sup>2))"
    using sq toDouble_of_int[of "i\<^sup>2 + j\<^sup>2"] by simp
  have a2: "dadd (Dbl (real_of_int (i\<^sup>2 + j\<^sup>2))) (Dbl (real_of_int (k\<^sup>2)))
      = Dbl (real_of_int (i\<^sup>2 + j\<^sup>2 + k\<^sup>2))"
    using sq toDouble_of_int[of "i\<^sup>2 + j\<^sup>2 + k\<^sup>2"] by simp
  define s where "s = nat (i\<^sup>2 + j\<^sup>2 + k\<^sup>2)"
  have s: "real s = real_of_int (i\<^sup>2 + j\<^sup>2 + k\<^sup>2)" "s \<le> 195075"
    using sq by (simp_all add: s_def)
  have "squaredDistance64 (Dbl r) (Dbl g) (Dbl b) p = Dbl (real s)"
    unfolding squaredDistance64_def d1 d2 d3 p1 p2 p3 a1 a2 s(1) ..
  moreover have "squaredDistance (Num r) (Num g) (Num b) p = Num (real s)"
    by (simp add: squaredDistance_def s(1) r g b pr pg pb i_def j_def k_def)
  ultimately show ?thesis using s(2) by blast
qed

lemma closestLoop64_Finite_bytes:
  assumes "byte r" "byte g" "byte b"
  shows "\<forall>p\<in>set pal. byteColor p \<Longrightarrow> m \<le> 195075 \<Longrightarrow>
     snd (closestLoop64 (Dbl r) (Dbl g) (Dbl b) pal (Dbl (nearest (sqrt (real m))), c)) =
     snd (closestLoop (Num r) (Num g) (Num b) pal (Finite (Num (sqrt (real m))), c))"
proof (induction pal arbitrary: m c)
  case Nil
  show ?case by simp
next
  case (Cons p pal)
  have "byteColor p" using Cons.prems(1) by simp
  from squaredDistance64_bytes[OF assms this] obtain s :: nat where s: "s \<le> 195075"
    "squaredDistance64 (Dbl r) (Dbl g) (Dbl b) p = Dbl (real s)"
    "squaredDistance (Num r) (Num g) (Num b) p = Num (real s)"
    by blast
  have rest: "\<forall>p\<in>set pal. byteColor p" using Cons.prems(1) by simp
  show ?case
    using Cons.IH[OF rest s(1)] Cons.IH[OF rest Cons.prems(2)]
      nearest_sqrt_less_iff[OF s(1) Cons.prems(2)]
    by (simp add: closestLoop64_Cons closestLoop_Cons s(2,3))
qed

lemma closestLoop64_PosInf_bytes:
  assumes "byte r" "byte g" "byte b"
  shows "\<forall>p\<in>set pal. byteColor p \<Longrightarrow>
     snd (closestLoop64 (Dbl r) (Dbl g) (Dbl b) pal (PosInf, c)) =
     snd (closestLoop (Num r) (Num g) (Num b) pal (Infinity, c))"
proof (induction pal arbitrary: c)
  case Nil
  show ?case by simp
next
  case (Cons p pal)
  have "byteColor p" using Cons.prems(1) by simp
  from squaredDistance64_bytes[OF assms this] obtain s :: nat where s: "s \<le> 195075"
    "squaredDistance64 (Dbl r) (Dbl g) (Dbl b) p = Dbl (real s)"
    "squaredDistance (Num r) (Num g) (Num b) p = Num (real s)"
    by blast
  have rest: "\<forall>p\<in>set pal. byteColor p" using Cons.prems(1) by simp
  show ?case
    using closestLoop64_Finite_bytes[OF assms rest s(1)]
    by (simp add: closestLoop64_Cons closestLoop_Cons s(2,3))
qed

lemma closestLoopSquared64_Finite_bytes:
  assumes "byte r" "byte g" "byte b"
  shows "\<forall>p\<in>set pal. byteColor p \<Longrightarrow>
     snd (closestLoopSquared64 (Dbl r) (Dbl g) (Dbl b) pal (Dbl (real m), c)) =
     snd (closestLoopSquared (Num r) (Num g) (Num b) pal (Finite (Num (real (m::nat))), c))"
proof (induction pal arbitrary: m c)
  case Nil
  show ?case by simp
next
  case (Cons p pal)
  have "byteColor p" using Cons.prems(1) by simp
  from squaredDistance64_bytes[OF assms this] obtain s :: nat where s: "s \<le> 195075"
    "squaredDistance64 (Dbl r) (Dbl g) (Dbl b) p = Dbl (real s)"
    "squaredDistance (Num r) (Num g) (Num b) p = Num (real s)"
    by blast
  have rest: "\<forall>p\<in>set pal. byteColor p" using Cons.prems(1) by simp
  show ?case
    using Cons.IH[OF rest, of s] Cons.IH[OF rest, of m]
    by (simp add: closestLoopSquared64_Cons closestLoopSquared_Cons s(2,3))
qed

lemma closestLoopSquared64_PosInf_bytes:
  assumes "byte r" "byte g" "byte b"
  shows "\<forall>p\<in>set pal. byteColor p \<Longrightarrow>
     snd (closestLoopSquared64 (Dbl r) (Dbl g) (Dbl b) pal (PosInf, c)) =
     snd (closestLoopSquared (Num r) (Num g) (Num b) pal (Infinity, c))"
proof (induction pal arbitrary: c)
  case Nil
  show ?case by simp
next
  case (Cons p pal)
  have "byteColor p" using Cons.prems(1) by simp
  from squaredDistance64_bytes[OF assms this] obtain s :: nat where s: "s \<le> 195075"
    "squaredDistance64 (Dbl r) (Dbl g) (Dbl b) p = Dbl (real s)"
    "squaredDistance (Num r) (Num g) (Num b) p = Num (real s)"
    by blast
  have rest: "\<forall>p\<in>set pal. byteColor p" using Cons.prems(1) by simp
  show ?case
    using closestLoopSquared64_Finite_bytes[OF assms rest, of s]
    by (simp add: closestLoopSquared64_Cons closestLoopSquared_Cons s(2,3))
qed

lemma closestIn64_bytes:
  assumes "byte r" "byte g" "byte b" "\<forall>p\<in>set palette. byteColor p"
  shows "closestIn64 palette (Dbl r) (Dbl g) (Dbl b) = closestIn palette (Num r) (Num g) (Num b)"
  by (simp add: closestIn64_def closestIn_def closestLoop64_PosInf_bytes[OF assms])

lemma closestInSquared64_bytes:
  assumes "byte r" "byte g" "byte b" "\<forall>p\<in>set palette. byteColor p"
  shows "closestInSquared64 palette (Dbl r) (Dbl g) (Dbl b) =
     closestInSquared palette (Num r) (Num g) (Num b)"
  by (simp add: closestInSquared64_def closestInSquared_def closestLoopSquared64_PosInf_bytes[OF assms])

lemma PALETTE_bytes: "\<forall>p\<in>set PALETTE. byteColor p"
  by (simp add: PALETTE_def byteColor_def byte_def)

lemma dadd_DNaN [simp]: "dadd x DNaN = DNaN" "dadd DNaN x = DNaN"
  by (cases x; simp)+

lemma dsub_DNaN [simp]: "dsub DNaN x = DNaN"
  by simp

lemma closestLoop64_NaN:
  "r = DNaN \<or> g = DNaN \<or> b = DNaN \<Longrightarrow> closestLoop64 r g b pal (m, c) = (m, c)"
proof (induction pal arbitrary: m c)
  case Nil
  show ?case by simp
next
  case (Cons p pal)
  have "squaredDistance64 r g b p = DNaN"
    using Cons.prems by (cases r; cases g; cases b) (auto simp add: squaredDistance64_def)
  then show ?case using Cons by (simp add: closestLoop64_Cons)
qed

lemma closestIn64_NaN:
  assumes "r = DNaN \<or> g = DNaN \<or> b = DNaN" and "r' = NaN \<or> g' = NaN \<or> b' = NaN"
  shows "closestIn64 palette r g b = closestIn palette r' g' b'"
  by (simp add: closestIn64_def closestIn_def closestLoop64_NaN[OF assms(1)]
      closestLoop_NaN[OF assms(2)])

section \<open>The matcher: nearest entry, earliest on a tie\<close>

text \<open>
  Beyond byte channels the distances round.  From \<open>(10 ^ 20, 10 ^ 20, 10 ^ 20)\<close> every difference
  \<open>10 ^ 20 - 255\<close> rounds to \<open>10 ^ 20\<close>, so the loop computes the same distance for all eight
  entries and keeps the first.
\<close>

lemma dless_irrefl [simp]: "\<not> dless t t"
  by (cases t) simp_all









section \<open>The matcher on squared distances\<close>

text \<open>
  From \<open>(128, -1342177280, 32)\<close> the loop computes the sum of squares \<open>1801439850948215808\<close> for
  black and \<open>1801439850948215552\<close>, one unit in the last place less, for red.  The two square
  roots lie within \<open>0.21\<close> units in the last place of the same binary64 value on either side of
  it, and round to it.  Every other entry has a larger sum.
\<close>

lemma round60:
  assumes "2 ^ 60 \<le> x" and "x < 2 ^ 61" and "\<bar>x / 256 - real_of_int k\<bar> < 1 / 2"
  shows "toDouble x = Dbl (real_of_int k * 256)"
proof -
  have "real_of_int k < x / 256 + 1 / 2" "x / 256 - 1 / 2 < real_of_int k"
    using assms(3) by linarith+
  then have "real_of_int k * 256 < 2 ^ 62" "0 < real_of_int k * 256"
    using assms(1,2) by simp_all
  moreover have "(2::real) ^ 62 \<le> 2 ^ 1024" by simp
  ultimately have k: "\<bar>real_of_int k * 256\<bar> < 2 ^ 1024" by linarith
  have "toDouble x = Dbl (real_of_int k * 2 powi (60 - 52))"
  proof (rule toDouble_eval)
    show "2 powi 60 \<le> \<bar>x\<bar>" using assms(1) by simp
    show "\<bar>x\<bar> < 2 powi (60 + 1)" using assms(1,2) by simp
    show "\<bar>x / 2 powi (60 - 52) - real_of_int k\<bar> < 1 / 2" using assms(3) by simp
    show "\<bar>real_of_int k * 2 powi (60 - 52)\<bar> < 2 ^ 1024"
      using k by simp
  qed simp
  then show ?thesis by simp
qed

lemma roundings60:
  "toDouble 1801439850948198400 = Dbl 1801439850948198400"
  "toDouble 1801439850948214529 = Dbl 1801439850948214528"
  "toDouble 1801439850948214784 = Dbl 1801439850948214784"
  "toDouble 1801439850948215552 = Dbl 1801439850948215552"
  "toDouble 1801439850948215808 = Dbl 1801439850948215808"
  "toDouble 1801439850948264257 = Dbl 1801439850948264192"
  "toDouble 1801439850948264513 = Dbl 1801439850948264448"
  "toDouble 1801440535458676225 = Dbl 1801440535458676224"
  "toDouble 1801440535458692353 = Dbl 1801440535458692352"
  "toDouble 1801440535458692608 = Dbl 1801440535458692608"
  "toDouble 1801440535458693376 = Dbl 1801440535458693376"
  "toDouble 1801440535458693632 = Dbl 1801440535458693632"
  "toDouble 1801440535458742081 = Dbl 1801440535458742016"
  "toDouble 1801440535458742337 = Dbl 1801440535458742272"
proof -
  show "toDouble 1801439850948198400 = Dbl 1801439850948198400"
    using round60[of 1801439850948198400 7036874417766400] by simp
  show "toDouble 1801439850948214529 = Dbl 1801439850948214528"
    using round60[of 1801439850948214529 7036874417766463] by simp
  show "toDouble 1801439850948214784 = Dbl 1801439850948214784"
    using round60[of 1801439850948214784 7036874417766464] by simp
  show "toDouble 1801439850948215552 = Dbl 1801439850948215552"
    using round60[of 1801439850948215552 7036874417766467] by simp
  show "toDouble 1801439850948215808 = Dbl 1801439850948215808"
    using round60[of 1801439850948215808 7036874417766468] by simp
  show "toDouble 1801439850948264257 = Dbl 1801439850948264192"
    using round60[of 1801439850948264257 7036874417766657] by simp
  show "toDouble 1801439850948264513 = Dbl 1801439850948264448"
    using round60[of 1801439850948264513 7036874417766658] by simp
  show "toDouble 1801440535458676225 = Dbl 1801440535458676224"
    using round60[of 1801440535458676225 7036877091635454] by simp
  show "toDouble 1801440535458692353 = Dbl 1801440535458692352"
    using round60[of 1801440535458692353 7036877091635517] by simp
  show "toDouble 1801440535458692608 = Dbl 1801440535458692608"
    using round60[of 1801440535458692608 7036877091635518] by simp
  show "toDouble 1801440535458693376 = Dbl 1801440535458693376"
    using round60[of 1801440535458693376 7036877091635521] by simp
  show "toDouble 1801440535458693632 = Dbl 1801440535458693632"
    using round60[of 1801440535458693632 7036877091635522] by simp
  show "toDouble 1801440535458742081 = Dbl 1801440535458742016"
    using round60[of 1801440535458742081 7036877091635711] by simp
  show "toDouble 1801440535458742337 = Dbl 1801440535458742272"
    using round60[of 1801440535458742337 7036877091635712] by simp
qed

lemma squaredDistance64_example:
  "squaredDistance64 (Dbl 128) (Dbl (- 1342177280)) (Dbl 32) (0, 0, 0) = Dbl 1801439850948215808"
  "squaredDistance64 (Dbl 128) (Dbl (- 1342177280)) (Dbl 32) (255, 255, 255) = Dbl 1801440535458742016"
  "squaredDistance64 (Dbl 128) (Dbl (- 1342177280)) (Dbl 32) (255, 0, 0) = Dbl 1801439850948215552"
  "squaredDistance64 (Dbl 128) (Dbl (- 1342177280)) (Dbl 32) (0, 255, 0) = Dbl 1801440535458693632"
  "squaredDistance64 (Dbl 128) (Dbl (- 1342177280)) (Dbl 32) (0, 0, 255) = Dbl 1801439850948264448"
  "squaredDistance64 (Dbl 128) (Dbl (- 1342177280)) (Dbl 32) (255, 255, 0) = Dbl 1801440535458693376"
  "squaredDistance64 (Dbl 128) (Dbl (- 1342177280)) (Dbl 32) (0, 255, 255) = Dbl 1801440535458742272"
  "squaredDistance64 (Dbl 128) (Dbl (- 1342177280)) (Dbl 32) (255, 0, 255) = Dbl 1801439850948264192"
  by (simp_all add: squaredDistance64_def toDouble_numeral toDouble_neg_numeral roundings60)

lemma sqrt_binade30:
  assumes "2 ^ 60 \<le> S" and "S < 2 ^ 62"
  shows "2 ^ 30 \<le> sqrt S" and "sqrt S < 2 ^ 31"
proof -
  show "2 ^ 30 \<le> sqrt S" using assms(1) by (intro real_le_rsqrt) simp
  show "sqrt S < 2 ^ 31" using assms(2) by (intro real_less_lsqrt) simp_all
qed

lemma nearest_sqrt_binade30:
  assumes "2 ^ 60 \<le> S" and "S < 2 ^ 62"
  shows "nearest (sqrt S) = real_of_int (roundHalfEven (sqrt S * 2 ^ 22)) / 2 ^ 22"
proof -
  note b = sqrt_binade30[OF assms]
  have "nearest (sqrt S) =
      real_of_int (roundHalfEven (sqrt S / 2 powi (30 - 52))) * 2 powi (30 - 52)"
  proof (rule nearest_eval)
    show "2 powi 30 \<le> \<bar>sqrt S\<bar>" using b(1) by simp
    show "\<bar>sqrt S\<bar> < 2 powi (30 + 1)" using b by simp
  qed simp
  then show ?thesis by (simp add: power_int_minus divide_simps)
qed

lemma nearest_sqrt_mono30:
  assumes "2 ^ 60 \<le> S" and "S \<le> T" and "T < 2 ^ 62"
  shows "nearest (sqrt S) \<le> nearest (sqrt T)"
proof -
  have "sqrt S * 2 ^ 22 \<le> sqrt T * 2 ^ 22" using assms(2) by simp
  then have "roundHalfEven (sqrt S * 2 ^ 22) \<le> roundHalfEven (sqrt T * 2 ^ 22)"
    by (rule roundHalfEven_mono)
  then have "real_of_int (roundHalfEven (sqrt S * 2 ^ 22)) / 2 ^ 22
      \<le> real_of_int (roundHalfEven (sqrt T * 2 ^ 22)) / 2 ^ 22"
    by (simp add: divide_right_mono)
  moreover have "2 ^ 60 \<le> T" "S < 2 ^ 62" using assms by linarith+
  ultimately show ?thesis
    using assms by (simp only: nearest_sqrt_binade30)
qed

lemma nearest_sqrt_eval30:
  assumes "2 ^ 60 \<le> S" and "S < 2 ^ 62" and "0 < k"
    and "(2 * real_of_int k - 1)\<^sup>2 < S * 2 ^ 46"
    and "S * 2 ^ 46 < (2 * real_of_int k + 1)\<^sup>2"
  shows "nearest (sqrt S) = real_of_int k / 2 ^ 22"
proof -
  have s: "sqrt S * 2 ^ 22 = sqrt (S * 2 ^ 44)"
  proof -
    have "sqrt ((2::real) ^ 44) = sqrt ((2 ^ 22)\<^sup>2)" by simp
    also have "\<dots> = 2 ^ 22" by (simp only: real_sqrt_abs) simp
    finally show ?thesis by (simp add: real_sqrt_mult)
  qed
  have "(real_of_int k - 1 / 2)\<^sup>2 = (2 * real_of_int k - 1)\<^sup>2 / 4"
    by (simp add: power2_eq_square field_simps)
  then have "(real_of_int k - 1 / 2)\<^sup>2 < S * 2 ^ 44" using assms(4) by simp
  then have lo: "real_of_int k - 1 / 2 < sqrt (S * 2 ^ 44)" by (rule real_less_rsqrt)
  have "(real_of_int k + 1 / 2)\<^sup>2 = (2 * real_of_int k + 1)\<^sup>2 / 4"
    by (simp add: power2_eq_square field_simps)
  then have "S * 2 ^ 44 < (real_of_int k + 1 / 2)\<^sup>2" using assms(5) by simp
  moreover have "0 \<le> real_of_int k + 1 / 2" using assms(3) by simp
  ultimately have hi: "sqrt (S * 2 ^ 44) < real_of_int k + 1 / 2"
    by (intro real_less_lsqrt)
  have "\<bar>sqrt S * 2 ^ 22 - real_of_int k\<bar> < 1 / 2" using lo hi unfolding s by linarith
  then have "roundHalfEven (sqrt S * 2 ^ 22) = k" by (rule roundHalfEven_near)
  then show ?thesis using assms(1,2) by (simp only: nearest_sqrt_binade30)
qed

lemma nearest_sqrt_black:
  "nearest (sqrt 1801439850948215808) = 5629499534213147 / 2 ^ 22"
  using nearest_sqrt_eval30[of 1801439850948215808 5629499534213147] by simp

lemma nearest_sqrt_red:
  "nearest (sqrt 1801439850948215552) = 5629499534213147 / 2 ^ 22"
  using nearest_sqrt_eval30[of 1801439850948215552 5629499534213147] by simp

lemma nearest_sqrt_others:
  "5629499534213147 / 2 ^ 22 \<le> nearest (sqrt 1801439850948215808)"
  "5629499534213147 / 2 ^ 22 \<le> nearest (sqrt 1801440535458742016)"
  "5629499534213147 / 2 ^ 22 \<le> nearest (sqrt 1801439850948215552)"
  "5629499534213147 / 2 ^ 22 \<le> nearest (sqrt 1801440535458693632)"
  "5629499534213147 / 2 ^ 22 \<le> nearest (sqrt 1801439850948264448)"
  "5629499534213147 / 2 ^ 22 \<le> nearest (sqrt 1801440535458693376)"
  "5629499534213147 / 2 ^ 22 \<le> nearest (sqrt 1801440535458742272)"
  "5629499534213147 / 2 ^ 22 \<le> nearest (sqrt 1801439850948264192)"
proof -
  show "5629499534213147 / 2 ^ 22 \<le> nearest (sqrt 1801439850948215808)"
    using nearest_sqrt_mono30[of 1801439850948215552 1801439850948215808] by (simp add: nearest_sqrt_red)
  show "5629499534213147 / 2 ^ 22 \<le> nearest (sqrt 1801440535458742016)"
    using nearest_sqrt_mono30[of 1801439850948215552 1801440535458742016] by (simp add: nearest_sqrt_red)
  show "5629499534213147 / 2 ^ 22 \<le> nearest (sqrt 1801439850948215552)"
    using nearest_sqrt_mono30[of 1801439850948215552 1801439850948215552] by (simp add: nearest_sqrt_red)
  show "5629499534213147 / 2 ^ 22 \<le> nearest (sqrt 1801440535458693632)"
    using nearest_sqrt_mono30[of 1801439850948215552 1801440535458693632] by (simp add: nearest_sqrt_red)
  show "5629499534213147 / 2 ^ 22 \<le> nearest (sqrt 1801439850948264448)"
    using nearest_sqrt_mono30[of 1801439850948215552 1801439850948264448] by (simp add: nearest_sqrt_red)
  show "5629499534213147 / 2 ^ 22 \<le> nearest (sqrt 1801440535458693376)"
    using nearest_sqrt_mono30[of 1801439850948215552 1801440535458693376] by (simp add: nearest_sqrt_red)
  show "5629499534213147 / 2 ^ 22 \<le> nearest (sqrt 1801440535458742272)"
    using nearest_sqrt_mono30[of 1801439850948215552 1801440535458742272] by (simp add: nearest_sqrt_red)
  show "5629499534213147 / 2 ^ 22 \<le> nearest (sqrt 1801439850948264192)"
    using nearest_sqrt_mono30[of 1801439850948215552 1801439850948264192] by (simp add: nearest_sqrt_red)
qed

lemma closestLoop64_stays:
  assumes "\<forall>p\<in>set pal. \<not> dless (dsqrt (squaredDistance64 r g b p)) m"
  shows "closestLoop64 r g b pal (m, c) = (m, c)"
  using assms by (induction pal) (simp_all add: closestLoop64_Cons)

lemma distance64_example:
  "\<forall>p\<in>set PALETTE.
     \<not> dless (dsqrt (squaredDistance64 (Dbl 128) (Dbl (- 1342177280)) (Dbl 32) p)) tieDistance"
  using nearest_sqrt_others
  by (simp add: PALETTE_def squaredDistance64_example tieDistance_def)

text \<open>
  Claim C9, as amended.  For a colour whose channels are bytes and a palette of byte colours,
  the variant of the matcher that compares squared distances returns the same entry as the
  matcher that compares distances; in particular it makes the same choice on a tie.
\<close>

theorem squared_matcher_agrees_bytes:
  assumes "\<forall>p\<in>set palette. byteColor p" and "byte r" and "byte g" and "byte b"
  shows "closestInSquared64 palette (Dbl r) (Dbl g) (Dbl b) = closestIn64 palette (Dbl r) (Dbl g) (Dbl b)"
  unfolding closestIn64_bytes[OF assms(2,3,4,1)] closestInSquared64_bytes[OF assms(2,3,4,1)]
  by (simp add: closestIn_def closestInSquared_def closestLoop_Infinity)

theorem squared_matcher_agrees_bytes_witness:
  "list_all byteColor PALETTE \<and> byte 128
   \<and> closestInSquared64 PALETTE (Dbl 128) (Dbl 128) (Dbl 128)
       = closestIn64 PALETTE (Dbl 128) (Dbl 128) (Dbl 128)
   \<and> closestIn64 PALETTE (Dbl 128) (Dbl 128) (Dbl 128) = (255, 255, 255)"
proof -
  have h1: "\<forall>p\<in>set PALETTE. byteColor p" by (rule PALETTE_bytes)
  have h2: "byte 128" by simp
  have "closestIn PALETTE (Num 128) (Num 128) (Num 128) = (255, 255, 255)"
    by (simp add: closestIn_def PALETTE_def)
  then have v: "closestIn64 PALETTE (Dbl 128) (Dbl 128) (Dbl 128) = (255, 255, 255)"
    by (simp only: closestIn64_bytes[OF h2 h2 h2 h1])
  have h1': "list_all byteColor PALETTE" using h1 by (simp add: list_all_iff)
  show ?thesis
    using h1' h2 v squared_matcher_agrees_bytes [OF h1 h2 h2 h2] by blast
qed

text \<open>
  For other numbers the claim fails: from \<open>(128, -1342177280, 32)\<close> the program's matcher
  returns black, as the distances to black and to red round to the same number, and the
  variant returns red, whose squared distance is the smaller.
\<close>

theorem squared_matcher_differs_counterexample:
  "findClosestPaletteColor64 (Dbl 128) (Dbl (- 1342177280)) (Dbl 32) = (0, 0, 0)
   \<and> closestInSquared64 PALETTE (Dbl 128) (Dbl (- 1342177280)) (Dbl 32) = (255, 0, 0)
   \<and> dless (squaredDistance64 (Dbl 128) (Dbl (- 1342177280)) (Dbl 32) (255, 0, 0))
       (squaredDistance64 (Dbl 128) (Dbl (- 1342177280)) (Dbl 32) (0, 0, 0))
   \<and> dsqrt (squaredDistance64 (Dbl 128) (Dbl (- 1342177280)) (Dbl 32) (255, 0, 0))
       = dsqrt (squaredDistance64 (Dbl 128) (Dbl (- 1342177280)) (Dbl 32) (0, 0, 0))"
proof -
  have less: "dless (squaredDistance64 (Dbl 128) (Dbl (- 1342177280)) (Dbl 32) (255, 0, 0))
       (squaredDistance64 (Dbl 128) (Dbl (- 1342177280)) (Dbl 32) (0, 0, 0))"
    by (simp add: squaredDistance64_example)
  have same: "dsqrt (squaredDistance64 (Dbl 128) (Dbl (- 1342177280)) (Dbl 32) (255, 0, 0))
       = dsqrt (squaredDistance64 (Dbl 128) (Dbl (- 1342177280)) (Dbl 32) (0, 0, 0))"
    by (simp add: squaredDistance64_example nearest_sqrt_black nearest_sqrt_red)
  have pal: "PALETTE = (0, 0, 0) # tl PALETTE" by (simp add: PALETTE_def)
  have head: "dsqrt (squaredDistance64 (Dbl 128) (Dbl (- 1342177280)) (Dbl 32) (0, 0, 0)) = tieDistance"
    by (simp add: squaredDistance64_example tieDistance_def nearest_sqrt_black)
  have first: "dless tieDistance PosInf" by (simp add: tieDistance_def)
  have "\<forall>p\<in>set (tl PALETTE).
      \<not> dless (dsqrt (squaredDistance64 (Dbl 128) (Dbl (- 1342177280)) (Dbl 32) p)) tieDistance"
    using distance64_example by (simp add: PALETTE_def)
  then have "closestLoop64 (Dbl 128) (Dbl (- 1342177280)) (Dbl 32) (tl PALETTE) (tieDistance, (0, 0, 0))
      = (tieDistance, (0, 0, 0))"
    by (rule closestLoop64_stays)
  then have "closestLoop64 (Dbl 128) (Dbl (- 1342177280)) (Dbl 32) ((0, 0, 0) # tl PALETTE) (PosInf, (0, 0, 0))
      = (tieDistance, (0, 0, 0))"
    by (simp only: closestLoop64_Cons head first if_True)
  then have "closestLoop64 (Dbl 128) (Dbl (- 1342177280)) (Dbl 32) PALETTE (PosInf, (0, 0, 0))
      = (tieDistance, (0, 0, 0))"
    using pal by simp
  moreover have "closestLoopSquared64 (Dbl 128) (Dbl (- 1342177280)) (Dbl 32) PALETTE (PosInf, (0, 0, 0)) =
      (Dbl 1801439850948215552, (255, 0, 0))"
    by (simp add: PALETTE_def closestLoopSquared64_Cons squaredDistance64_example)
  ultimately have "findClosestPaletteColor64 (Dbl 128) (Dbl (- 1342177280)) (Dbl 32) = (0, 0, 0)"
    "closestInSquared64 PALETTE (Dbl 128) (Dbl (- 1342177280)) (Dbl 32) = (255, 0, 0)"
    by (simp_all add: findClosestPaletteColor64_def closestIn64_def closestInSquared64_def)
  with less same show ?thesis by (intro conjI)
qed

end
